theory Spec2Isabelle
  imports Main "HOL-Library.AList" "HOL-Library.Multiset"
begin

section \<open>Values of the pipeline definition\<close>

text \<open>
  A pipeline definition is a JSON document. Node configurations hold arbitrary JSON
  values; a Python \<open>dict\<close> is an association list, which keeps the insertion order
  that Python dictionaries iterate in.
\<close>

datatype json =
  JNull
  | JBool bool
  | JInt int
  | JStr string
  | JList "json list"
  | JDict "(string \<times> json) list"

type_synonym config = "(string \<times> json) list"

text \<open>The exceptions the engine and the Python runtime raise; the payload is the
  exception's argument. \<open>KeyError\<close> carries the missing key when it is a string or
  Python's \<open>None\<close>, \<open>KeyErrorValue\<close> is a \<open>KeyError\<close> whose key is another value;
  \<open>ReError\<close> is \<open>re.error\<close>.\<close>

datatype error =
  KeyError "string option"
  | KeyErrorValue json
  | ValueError string
  | AttributeError string
  | TypeError string
  | IOError string
  | ReError string

text \<open>
  A node: \<open>id\<close> is always read as \<open>node['id']\<close>; the other keys are read with
  \<open>node.get\<close> by the validator and with \<open>node[...]\<close> by the executor, so they are
  optional (\<open>None\<close>: the key is absent).
\<close>

record node =
  n_id :: string
  n_type :: "string option"
  n_subtype :: "string option"
  n_config :: "config option"

text \<open>An edge is a dictionary; each of the six endpoint keys the code reads may be
  absent (\<open>None\<close>) or hold a string.\<close>

record edge =
  e_from :: "string option"
  e_from_node :: "string option"
  e_source :: "string option"
  e_to :: "string option"
  e_to_node :: "string option"
  e_target :: "string option"

text \<open>Python truthiness of an optional string, and the \<open>or\<close> operator on such values:
  \<open>a or b\<close> is \<open>a\<close> when \<open>a\<close> is truthy and \<open>b\<close> otherwise.\<close>

fun truthy_s :: "string option \<Rightarrow> bool" where
  "truthy_s None = False"
| "truthy_s (Some s) = (s \<noteq> [])"

definition py_or :: "string option \<Rightarrow> string option \<Rightarrow> string option" where
  "py_or a b = (if truthy_s a then a else b)"

text \<open>\<open>edge.get('from') or edge.get('from_node') or edge.get('source')\<close>, as the
  validator and the executor's input resolution read an edge.\<close>

definition edge_from :: "edge \<Rightarrow> string option" where
  "edge_from e = py_or (py_or (e_from e) (e_from_node e)) (e_source e)"

definition edge_to :: "edge \<Rightarrow> string option" where
  "edge_to e = py_or (py_or (e_to e) (e_to_node e)) (e_target e)"

text \<open>\<open>edge.get('from') or edge.get('from_node')\<close>, as \<open>topological_sort\<close> reads it.\<close>

definition ts_from :: "edge \<Rightarrow> string option" where
  "ts_from e = py_or (e_from e) (e_from_node e)"

definition ts_to :: "edge \<Rightarrow> string option" where
  "ts_to e = py_or (e_to e) (e_to_node e)"

fun truthy :: "json \<Rightarrow> bool" where
  "truthy JNull = False"
| "truthy (JBool b) = b"
| "truthy (JInt i) = (i \<noteq> 0)"
| "truthy (JStr s) = (s \<noteq> [])"
| "truthy (JList xs) = (xs \<noteq> [])"
| "truthy (JDict kvs) = (kvs \<noteq> [])"

text \<open>\<open>not config.get(k)\<close>: the key is absent or its value is falsy.\<close>

definition cfg_falsy :: "config \<Rightarrow> string \<Rightarrow> bool" where
  "cfg_falsy c k = (case map_of c k of None \<Rightarrow> True | Some v \<Rightarrow> \<not> truthy v)"

subsection \<open>Strings\<close>

text \<open>Strings are byte lists; the arrow of the cycle message is its UTF-8 encoding.\<close>

definition apos :: string where
  "apos = [CHR 0x27]"

definition arrow :: string where
  "arrow = [CHR 0x20, CHR 0xE2, CHR 0x86, CHR 0x92, CHR 0x20]"

definition quoted :: "string \<Rightarrow> string" where
  "quoted s = apos @ s @ apos"

text \<open>
  \<open>repr(s)\<close> of a Python string: it is quoted with apostrophes, or with double quotes
  when it holds an apostrophe and no double quote; the backslash, the quote and the ASCII
  control characters are escaped. Bytes beyond ASCII are kept (they encode printable
  characters).
\<close>

definition quote_of :: "string \<Rightarrow> char" where
  "quote_of s = (if CHR 0x27 \<in> set s \<and> CHR 0x22 \<notin> set s then CHR 0x22 else CHR 0x27)"

definition hex_digit :: "nat \<Rightarrow> char" where
  "hex_digit n = (if n < 10 then char_of (48 + n) else char_of (87 + n))"

definition escape_char :: "char \<Rightarrow> char \<Rightarrow> string" where
  "escape_char q c =
     (if c = CHR 0x5C then [CHR 0x5C, CHR 0x5C]
      else if c = q then [CHR 0x5C, c]
      else if c = CHR 0x0A then [CHR 0x5C, CHR ''n'']
      else if c = CHR 0x0D then [CHR 0x5C, CHR ''r'']
      else if c = CHR 0x09 then [CHR 0x5C, CHR ''t'']
      else if (of_char c :: nat) < 32 \<or> (of_char c :: nat) = 127
      then [CHR 0x5C, CHR ''x'', hex_digit (of_char c div 16), hex_digit (of_char c mod 16)]
      else [c])"

definition repr_str :: "string \<Rightarrow> string" where
  "repr_str s = (let q = quote_of s in q # concat (map (escape_char q) s) @ [q])"

fun join :: "string \<Rightarrow> string list \<Rightarrow> string" where
  "join sep [] = []"
| "join sep [x] = x"
| "join sep (x # y # ys) = x @ sep @ join sep (y # ys)"

fun show_nat :: "nat \<Rightarrow> string" where
  "show_nat n = (if n < 10 then [char_of (48 + n)]
                 else show_nat (n div 10) @ [char_of (48 + n mod 10)])"

definition show_int :: "int \<Rightarrow> string" where
  "show_int i = (if i < 0 then CHR ''-'' # show_nat (nat (- i)) else show_nat (nat i))"

text \<open>\<open>xs.index(x)\<close>: the first position of \<open>x\<close>, \<open>None\<close> where Python raises
  \<open>ValueError\<close>.\<close>

fun index_of :: "'a list \<Rightarrow> 'a \<Rightarrow> nat option" where
  "index_of [] x = None"
| "index_of (y # ys) x = (if y = x then Some 0 else map_option Suc (index_of ys x))"

section \<open>Graph validator\<close>

subsection \<open>Cycle detection\<close>

type_synonym adjacency = "(string \<times> string list) list"

text \<open>\<open>adjacency = {node['id']: [] for node in nodes}\<close>\<close>

definition empty_adjacency :: "node list \<Rightarrow> adjacency" where
  "empty_adjacency nodes = fold (\<lambda>n d. AList.update (n_id n) [] d) nodes []"

text \<open>One turn of the edge loop of \<open>detect_cycles\<close>: \<open>adjacency[from_node]\<close> raises
  \<open>KeyError\<close> when \<open>from_node\<close> is not a node id.\<close>

definition dc_add_edge :: "edge \<Rightarrow> adjacency \<Rightarrow> error + adjacency" where
  "dc_add_edge e adjacency =
     (case (edge_from e, edge_to e) of
        (Some from_node, Some to_node) \<Rightarrow>
          if from_node \<noteq> [] \<and> to_node \<noteq> [] then
            (case map_of adjacency from_node of
               None \<Rightarrow> Inl (KeyError (Some from_node))
             | Some targets \<Rightarrow> Inr (AList.update from_node (targets @ [to_node]) adjacency))
          else Inr adjacency
      | _ \<Rightarrow> Inr adjacency)"

fun dc_add_edges :: "edge list \<Rightarrow> adjacency \<Rightarrow> error + adjacency" where
  "dc_add_edges [] adjacency = Inr adjacency"
| "dc_add_edges (e # es) adjacency =
     (case dc_add_edge e adjacency of
        Inl err \<Rightarrow> Inl err
      | Inr adjacency' \<Rightarrow> dc_add_edges es adjacency')"

text \<open>The variables the nested \<open>dfs\<close> closes over (\<open>visited\<close>, \<open>rec_stack\<close>,
  \<open>errors\<close>) and the \<open>path\<close> list it is handed and mutates in place.\<close>

record dfs_state =
  visited :: "string set"
  rec_stack :: "string set"
  path :: "string list"
  errors :: "string list"

definition neighbours :: "adjacency \<Rightarrow> string \<Rightarrow> string list" where
  "neighbours adjacency node_id =
     (case map_of adjacency node_id of None \<Rightarrow> [] | Some ns \<Rightarrow> ns)"

definition enter :: "string \<Rightarrow> dfs_state \<Rightarrow> dfs_state" where
  "enter node_id st =
     st\<lparr>visited := insert node_id (visited st),
        rec_stack := insert node_id (rec_stack st),
        path := path st @ [node_id]\<rparr>"

definition leave :: "string \<Rightarrow> dfs_state \<Rightarrow> dfs_state" where
  "leave node_id st =
     st\<lparr>rec_stack := rec_stack st - {node_id}, path := butlast (path st)\<rparr>"

definition report_cycle :: "string \<Rightarrow> nat \<Rightarrow> dfs_state \<Rightarrow> dfs_state" where
  "report_cycle neighbor cycle_start st =
     st\<lparr>errors := errors st @
        [''Cycle detected: '' @ join arrow (drop cycle_start (path st) @ [neighbor])]\<rparr>"

text \<open>
  \<open>dfs\<close> returns whether a cycle was detected. \<open>dfs_for\<close> is its loop over the
  neighbours. When a cycle is detected the function returns at once: the nodes on the
  path stay in \<open>rec_stack\<close>. \<open>path.index(neighbor)\<close> raises \<open>ValueError\<close> when the
  neighbour is not on the current path.
\<close>

function dfs :: "adjacency \<Rightarrow> string \<Rightarrow> dfs_state \<Rightarrow> error + (bool \<times> dfs_state)"
  and dfs_for :: "adjacency \<Rightarrow> string list \<Rightarrow> dfs_state \<Rightarrow> error + (bool \<times> dfs_state)"
where
  "dfs adjacency node_id st =
     (case dfs_for adjacency (neighbours adjacency node_id) (enter node_id st) of
        Inl err \<Rightarrow> Inl err
      | Inr (found, st') \<Rightarrow>
          if found then Inr (True, st') else Inr (False, leave node_id st'))"
| "dfs_for adjacency [] st = Inr (False, st)"
| "dfs_for adjacency (neighbor # rest) st =
     (if neighbor \<notin> visited st then
        (case dfs adjacency neighbor st of
           Inl err \<Rightarrow> Inl err
         | Inr (found, st') \<Rightarrow>
             if found then Inr (True, st') else dfs_for adjacency rest st')
      else if neighbor \<in> rec_stack st then
        (case index_of (path st) neighbor of
           None \<Rightarrow> Inl (ValueError (repr_str neighbor @ '' is not in list''))
         | Some cycle_start \<Rightarrow> Inr (True, report_cycle neighbor cycle_start st))
      else dfs_for adjacency rest st)"
  by pat_completeness auto

text \<open>Termination: every call of \<open>dfs\<close> marks a node of the graph that was not visited before.\<close>

definition universe :: "adjacency \<Rightarrow> string set" where
  "universe adjacency = fst ` set adjacency \<union> (\<Union>(k, ns) \<in> set adjacency. set ns)"

lemma finite_universe: "finite (universe adjacency)"
  by (auto simp: universe_def)

lemma neighbours_universe: "set (neighbours adjacency n) \<subseteq> universe adjacency"
proof
  fix x assume "x \<in> set (neighbours adjacency n)"
  then obtain ns where "map_of adjacency n = Some ns" "x \<in> set ns"
    by (cases "map_of adjacency n") (auto simp: neighbours_def)
  then have "(n, ns) \<in> set adjacency" by (auto dest: map_of_SomeD)
  with \<open>x \<in> set ns\<close> show "x \<in> universe adjacency"
    unfolding universe_def by blast
qed

lemma dfs_visited_mono_dom:
  "dfs_dfs_for_dom (Inl (adjacency, n, st)) \<Longrightarrow> dfs adjacency n st = Inr (b, st') \<Longrightarrow> visited st \<subseteq> visited st'"
  "dfs_dfs_for_dom (Inr (adjacency, ns, st)) \<Longrightarrow> dfs_for adjacency ns st = Inr (b, st') \<Longrightarrow> visited st \<subseteq> visited st'"
proof (induction adjacency n st and adjacency ns st arbitrary: b st' and b st' rule: dfs_dfs_for.pinduct)
  case (1 adjacency node_id st)
  then show ?case
    by (auto simp: dfs.psimps enter_def leave_def split: sum.splits prod.splits if_splits)
next
  case (2 adjacency st)
  then show ?case by (simp add: dfs_for.psimps)
next
  case (3 adjacency neighbor rest st)
  show ?case
  proof (cases "neighbor \<notin> visited st")
    case True
    then obtain f s1 where d: "dfs adjacency neighbor st = Inr (f, s1)"
      using 3(1,5) by (auto simp: dfs_for.psimps split: sum.splits)
    have m1: "visited st \<subseteq> visited s1" using 3(2)[OF True d] .
    show ?thesis
    proof (cases f)
      case True
      with d \<open>neighbor \<notin> visited st\<close> 3(1,5) have "st' = s1" by (simp add: dfs_for.psimps)
      with m1 show ?thesis by simp
    next
      case False
      with d \<open>neighbor \<notin> visited st\<close> 3(1,5) have r: "dfs_for adjacency rest s1 = Inr (b, st')"
        by (simp add: dfs_for.psimps)
      have "visited s1 \<subseteq> visited st'"
        using 3(3)[OF \<open>neighbor \<notin> visited st\<close> d refl False r] .
      with m1 show ?thesis by blast
    qed
  next
    case False
    then show ?thesis using 3(1,4,5)
      by (auto simp: dfs_for.psimps report_cycle_def split: if_splits option.splits)
  qed
qed

termination dfs
proof (relation "inv_image (less_than <*lex*> less_than <*lex*> less_than)
    (\<lambda>x. case x of
        Inl (adjacency, n, st) \<Rightarrow> (card (universe adjacency - insert n (visited st)), 1::nat, 0::nat)
      | Inr (adjacency, ns, st) \<Rightarrow> (card ((universe adjacency \<union> set ns) - visited st), 0, length ns))", goal_cases)
  case 1
  show ?case by (intro wf_inv_image wf_lex_prod wf_less_than)
next
  case (2 adjacency node_id st)
  have "universe adjacency \<union> set (neighbours adjacency node_id) = universe adjacency"
    using neighbours_universe by blast
  then show ?case by (simp add: enter_def)
next
  case (3 adjacency neighbor rest st)
  have "universe adjacency - insert neighbor (visited st)
      \<subset> (universe adjacency \<union> set (neighbor # rest)) - visited st"
    using 3 by auto
  then have "card (universe adjacency - insert neighbor (visited st))
      < card ((universe adjacency \<union> set (neighbor # rest)) - visited st)"
    by (intro psubset_card_mono) (auto simp: finite_universe)
  then show ?case by simp
next
  case (4 adjacency neighbor rest st x xa y)
  then have "visited st \<subseteq> visited y"
    using dfs_visited_mono_dom(1) by metis
  then have "(universe adjacency \<union> set rest) - visited y
      \<subseteq> (universe adjacency \<union> set (neighbor # rest)) - visited st"
    by auto
  then have "card ((universe adjacency \<union> set rest) - visited y)
      \<le> card ((universe adjacency \<union> set (neighbor # rest)) - visited st)"
    by (intro card_mono) (auto simp: finite_universe)
  then show ?case by auto
next
  case (5 adjacency neighbor rest st)
  have "card ((universe adjacency \<union> set rest) - visited st)
      \<le> card ((universe adjacency \<union> set (neighbor # rest)) - visited st)"
    by (intro card_mono) (auto simp: finite_universe)
  then show ?case by auto
qed

text \<open>
  \<open>detect_cycles\<close>: one \<open>dfs\<close> per node that is not visited yet, each with a fresh
  \<open>path\<close>; the value \<open>dfs\<close> returns is dropped, \<open>visited\<close>, \<open>rec_stack\<close> and
  \<open>errors\<close> are kept from one root to the next.
\<close>

fun dc_roots :: "adjacency \<Rightarrow> node list \<Rightarrow> dfs_state \<Rightarrow> error + dfs_state" where
  "dc_roots adjacency [] st = Inr st"
| "dc_roots adjacency (n # ns) st =
     (if n_id n \<notin> visited st then
        (case dfs adjacency (n_id n) (st\<lparr>path := []\<rparr>) of
           Inl err \<Rightarrow> Inl err
         | Inr (found, st') \<Rightarrow> dc_roots adjacency ns st')
      else dc_roots adjacency ns st)"

definition dfs_init :: dfs_state where
  "dfs_init = \<lparr>visited = {}, rec_stack = {}, path = [], errors = []\<rparr>"

definition detect_cycles :: "node list \<Rightarrow> edge list \<Rightarrow> error + string list" where
  "detect_cycles nodes edges =
     (case dc_add_edges edges (empty_adjacency nodes) of
        Inl err \<Rightarrow> Inl err
      | Inr adjacency \<Rightarrow>
          (case dc_roots adjacency nodes dfs_init of
             Inl err \<Rightarrow> Inl err
           | Inr st \<Rightarrow> Inr (errors st)))"

subsection \<open>Orphan nodes\<close>

definition truthy_ids :: "string option list \<Rightarrow> string set" where
  "truthy_ids xs = set (concat (map (\<lambda>x. case x of None \<Rightarrow> [] | Some s \<Rightarrow> if s \<noteq> [] then [s] else []) xs))"

definition orphan_errors_of :: "string set \<Rightarrow> string set \<Rightarrow> node \<Rightarrow> string list" where
  "orphan_errors_of nodes_with_incoming nodes_with_outgoing n =
     (let node_id = n_id n;
          has_incoming = node_id \<in> nodes_with_incoming;
          has_outgoing = node_id \<in> nodes_with_outgoing
      in if n_type n = Some ''SOURCE'' then
           (if \<not> has_outgoing
            then [''Source node '' @ quoted node_id @ '' has no outgoing connections''] else [])
         else if n_type n = Some ''LOAD'' then
           (if \<not> has_incoming
            then [''Load node '' @ quoted node_id @ '' has no incoming connections''] else [])
         else if n_type n = Some ''TRANSFORM'' then
           (if \<not> has_incoming
            then [''Transform node '' @ quoted node_id @ '' has no incoming connections''] else []) @
           (if \<not> has_outgoing
            then [''Transform node '' @ quoted node_id @ '' has no outgoing connections''] else [])
         else
           (if \<not> has_incoming \<and> \<not> has_outgoing
            then [''Node '' @ quoted node_id @ '' has no connections''] else []))"

definition detect_orphan_nodes :: "node list \<Rightarrow> edge list \<Rightarrow> string list" where
  "detect_orphan_nodes nodes edges =
     (let nodes_with_outgoing = truthy_ids (map edge_from edges);
          nodes_with_incoming = truthy_ids (map edge_to edges)
      in concat (map (orphan_errors_of nodes_with_incoming nodes_with_outgoing) nodes))"

subsection \<open>Node configuration\<close>

definition req :: "config \<Rightarrow> string \<Rightarrow> string \<Rightarrow> string list" where
  "req c k msg = (if cfg_falsy c k then [msg] else [])"

definition config_errors_of :: "node \<Rightarrow> string list" where
  "config_errors_of n =
     (let p = ''Node '' @ quoted (n_id n) @ '': '';
          subtype = n_subtype n;
          c = (case n_config n of None \<Rightarrow> [] | Some c \<Rightarrow> c)
      in if subtype = Some ''CSV_SOURCE'' then
           req c ''file_path'' (p @ ''CSV source requires '' @ quoted ''file_path'')
         else if subtype = Some ''EXCEL_SOURCE'' then
           req c ''file_path'' (p @ ''Excel source requires '' @ quoted ''file_path'')
         else if subtype = Some ''JSON_SOURCE'' then
           req c ''file_path'' (p @ ''JSON source requires '' @ quoted ''file_path'')
         else if subtype = Some ''DB_SOURCE'' then
           req c ''connection_string''
             (p @ ''Database source requires '' @ quoted ''connection_string'') @
           (if cfg_falsy c ''table_name'' \<and> cfg_falsy c ''query''
            then [p @ ''Database source requires '' @ quoted ''table_name'' @ '' or '' @ quoted ''query'']
            else [])
         else if subtype = Some ''FILTER'' then
           req c ''column'' (p @ ''Filter requires '' @ quoted ''column'') @
           req c ''operator'' (p @ ''Filter requires '' @ quoted ''operator'') @
           (if map_of c ''value'' = None then [p @ ''Filter requires '' @ quoted ''value''] else [])
         else if subtype = Some ''SELECT'' then
           req c ''columns'' (p @ ''Select requires '' @ quoted ''columns'' @ '' list'')
         else if subtype = Some ''RENAME'' then
           req c ''mapping'' (p @ ''Rename requires '' @ quoted ''mapping'' @ '' dictionary'')
         else if subtype = Some ''CAST'' then
           req c ''column'' (p @ ''Cast requires '' @ quoted ''column'') @
           req c ''dtype'' (p @ ''Cast requires '' @ quoted ''dtype'')
         else if subtype = Some ''AGGREGATE'' then
           req c ''group_by'' (p @ ''Aggregate requires '' @ quoted ''group_by'') @
           req c ''aggregations'' (p @ ''Aggregate requires '' @ quoted ''aggregations'')
         else if subtype = Some ''JOIN'' then
           req c ''join_type'' (p @ ''Join requires '' @ quoted ''join_type'') @
           (if cfg_falsy c ''left_on'' \<or> cfg_falsy c ''right_on''
            then [p @ ''Join requires '' @ quoted ''left_on'' @ '' and '' @ quoted ''right_on'']
            else [])
         else if subtype \<in> {Some ''CSV_LOAD'', Some ''EXCEL_LOAD'', Some ''JSON_LOAD''} then
           req c ''output_path'' (p @ ''Load requires '' @ quoted ''output_path'')
         else if subtype = Some ''DB_LOAD'' then
           req c ''connection_string''
             (p @ ''Database load requires '' @ quoted ''connection_string'') @
           req c ''table_name'' (p @ ''Database load requires '' @ quoted ''table_name'')
         else [])"

definition validate_node_configs :: "node list \<Rightarrow> string list" where
  "validate_node_configs nodes = concat (map config_errors_of nodes)"

subsection \<open>Edges and structure\<close>

definition edge_errors_of :: "string set \<Rightarrow> nat \<Rightarrow> edge \<Rightarrow> string list" where
  "edge_errors_of node_ids idx e =
     (let p = ''Edge '' @ show_nat idx @ '': '' in
      case edge_from e of
        None \<Rightarrow> [p @ ''Missing '' @ quoted ''from'' @ '' node'']
      | Some from_node \<Rightarrow>
          if from_node = [] then [p @ ''Missing '' @ quoted ''from'' @ '' node'']
          else
            (case edge_to e of
               None \<Rightarrow> [p @ ''Missing '' @ quoted ''to'' @ '' node'']
             | Some to_node \<Rightarrow>
                 if to_node = [] then [p @ ''Missing '' @ quoted ''to'' @ '' node'']
                 else
                   (if from_node \<notin> node_ids
                    then [p @ quoted ''from'' @ '' node '' @ quoted from_node @ '' does not exist'']
                    else []) @
                   (if to_node \<notin> node_ids
                    then [p @ quoted ''to'' @ '' node '' @ quoted to_node @ '' does not exist'']
                    else [])))"

definition validate_edges :: "node list \<Rightarrow> edge list \<Rightarrow> string list" where
  "validate_edges nodes edges =
     (let node_ids = set (map n_id nodes)
      in concat (map (\<lambda>(idx, e). edge_errors_of node_ids idx e) (enumerate 0 edges)))"

definition validate_pipeline_structure :: "node list \<Rightarrow> edge list \<Rightarrow> string list" where
  "validate_pipeline_structure nodes edges =
     (if filter (\<lambda>n. n_type n = Some ''SOURCE'') nodes = []
      then [''Pipeline must have at least one SOURCE node''] else []) @
     (if filter (\<lambda>n. n_type n = Some ''LOAD'') nodes = []
      then [''Pipeline must have at least one LOAD node''] else [])"

subsection \<open>The validation entry point\<close>

record pipeline =
  p_nodes :: "node list"
  p_edges :: "edge list"

text \<open>\<open>validate_pipeline\<close> returns \<open>(is_valid, errors)\<close>; \<open>Inl\<close> is an exception that
  leaves the function.\<close>

definition validate_pipeline :: "pipeline \<Rightarrow> error + (bool \<times> string list)" where
  "validate_pipeline pipeline_json =
     (let nodes = p_nodes pipeline_json; edges = p_edges pipeline_json in
      if nodes = [] then Inr (False, [''Pipeline must contain at least one node''])
      else
        (case detect_cycles nodes edges of
           Inl err \<Rightarrow> Inl err
         | Inr cycle_errors \<Rightarrow>
             (let errors = cycle_errors
                    @ detect_orphan_nodes nodes edges
                    @ validate_node_configs nodes
                    @ validate_edges nodes edges
                    @ validate_pipeline_structure nodes edges
              in Inr (errors = [], errors))))"

section \<open>Topological order\<close>

type_synonym in_degree = "(string \<times> int) list"

text \<open>The edge loop of \<open>topological_sort\<close>: \<open>adjacency[from_node].append(to_node)\<close>
  and \<open>in_degree[to_node] += 1\<close>, each a \<open>KeyError\<close> on a key that is no node id.
  Only the keys \<open>from\<close>/\<open>from_node\<close> and \<open>to\<close>/\<open>to_node\<close> are read.\<close>

definition ts_add_edge :: "edge \<Rightarrow> adjacency \<times> in_degree \<Rightarrow> error + (adjacency \<times> in_degree)" where
  "ts_add_edge e ai =
     (case ai of (adjacency, in_degree) \<Rightarrow>
      (case ts_from e of
         None \<Rightarrow> Inl (KeyError None)
       | Some from_node \<Rightarrow>
           (case map_of adjacency from_node of
              None \<Rightarrow> Inl (KeyError (Some from_node))
            | Some targets \<Rightarrow>
                (case ts_to e of
                   None \<Rightarrow> Inl (KeyError None)
                 | Some to_node \<Rightarrow>
                     (case map_of in_degree to_node of
                        None \<Rightarrow> Inl (KeyError (Some to_node))
                      | Some d \<Rightarrow>
                          Inr (AList.update from_node (targets @ [to_node]) adjacency,
                               AList.update to_node (d + 1) in_degree))))))"

fun ts_add_edges :: "edge list \<Rightarrow> adjacency \<times> in_degree \<Rightarrow> error + (adjacency \<times> in_degree)" where
  "ts_add_edges [] ai = Inr ai"
| "ts_add_edges (e # es) ai =
     (case ts_add_edge e ai of
        Inl err \<Rightarrow> Inl err
      | Inr ai' \<Rightarrow> ts_add_edges es ai')"

definition zero_in_degree :: "node list \<Rightarrow> in_degree" where
  "zero_in_degree nodes = fold (\<lambda>n d. AList.update (n_id n) 0 d) nodes []"

text \<open>The inner loop: \<open>in_degree[neighbor] -= 1\<close>, and the neighbour joins the queue
  when its in-degree is zero then.\<close>

fun relax :: "string list \<Rightarrow> in_degree \<Rightarrow> string list \<Rightarrow> error + (in_degree \<times> string list)" where
  "relax [] in_degree queue = Inr (in_degree, queue)"
| "relax (neighbor # rest) in_degree queue =
     (case map_of in_degree neighbor of
        None \<Rightarrow> Inl (KeyError (Some neighbor))
      | Some d \<Rightarrow>
          relax rest (AList.update neighbor (d - 1) in_degree)
            (if d - 1 = 0 then queue @ [neighbor] else queue))"

text \<open>Termination of the queue loop: a node joins the queue only at the moment its
  in-degree falls from one to zero.\<close>

definition positives :: "in_degree \<Rightarrow> nat" where
  "positives in_degree = length (filter (\<lambda>kd. 0 < snd kd) in_degree)"

lemma positives_update:
  "map_of in_degree k = Some d \<Longrightarrow>
   positives (AList.update k (d - 1) in_degree) =
     (if d = 1 then positives in_degree - 1 else positives in_degree)
   \<and> (d = 1 \<longrightarrow> 0 < positives in_degree)"
  unfolding positives_def
  by (induction in_degree) (auto split: if_splits)

lemma relax_measure:
  "relax ns in_degree queue = Inr (in_degree', queue') \<Longrightarrow>
   length queue' + positives in_degree' = length queue + positives in_degree"
proof (induction ns arbitrary: in_degree queue)
  case Nil
  then show ?case by simp
next
  case (Cons n ns)
  then obtain d where d: "map_of in_degree n = Some d"
    by (cases "map_of in_degree n") auto
  from Cons.prems d have
    "relax ns (AList.update n (d - 1) in_degree) (if d - 1 = 0 then queue @ [n] else queue)
       = Inr (in_degree', queue')" by simp
  from Cons.IH[OF this] positives_update[OF d] show ?case
    by (auto split: if_splits)
qed

function kahn_loop :: "adjacency \<Rightarrow> in_degree \<Rightarrow> string list \<Rightarrow> string list \<Rightarrow> error + string list" where
  "kahn_loop adjacency in_degree [] sorted_nodes = Inr sorted_nodes"
| "kahn_loop adjacency in_degree (node_id # queue) sorted_nodes =
     (case map_of adjacency node_id of
        None \<Rightarrow> Inl (KeyError (Some node_id))
      | Some targets \<Rightarrow>
          (case relax targets in_degree queue of
             Inl err \<Rightarrow> Inl err
           | Inr (in_degree', queue') \<Rightarrow>
               kahn_loop adjacency in_degree' queue' (sorted_nodes @ [node_id])))"
  by pat_completeness auto
termination
proof (relation "measure (\<lambda>(adjacency, in_degree, queue, sorted_nodes). length queue + positives in_degree)", goal_cases)
  case 1
  show ?case by simp
next
  case (2 adjacency in_degree node_id queue sorted_nodes targets x in_degree' queue')
  then show ?case using relax_measure[of targets in_degree queue in_degree' queue'] by simp
qed

definition topological_sort :: "node list \<Rightarrow> edge list \<Rightarrow> error + string list" where
  "topological_sort nodes edges =
     (case ts_add_edges edges (empty_adjacency nodes, zero_in_degree nodes) of
        Inl err \<Rightarrow> Inl err
      | Inr (adjacency, in_degree) \<Rightarrow>
          (let queue = map fst (filter (\<lambda>(node_id, degree). degree = 0) in_degree) in
           case kahn_loop adjacency in_degree queue [] of
             Inl err \<Rightarrow> Inl err
           | Inr sorted_nodes \<Rightarrow>
               if length sorted_nodes \<noteq> length nodes
               then Inl (ValueError ''Pipeline contains cycles - cannot execute'')
               else Inr sorted_nodes))"

section \<open>Pipelines used as concrete inputs\<close>

definition mk_node :: "string \<Rightarrow> string \<Rightarrow> string \<Rightarrow> config \<Rightarrow> node" where
  "mk_node i t s c = \<lparr>n_id = i, n_type = Some t, n_subtype = Some s, n_config = Some c\<rparr>"

text \<open>An edge written \<open>{"from": u, "to": v}\<close>, and one written
  \<open>{"source": u, "target": v}\<close>.\<close>

definition from_to :: "string \<Rightarrow> string \<Rightarrow> edge" where
  "from_to u v = \<lparr>e_from = Some u, e_from_node = None, e_source = None,
                  e_to = Some v, e_to_node = None, e_target = None\<rparr>"

definition source_target :: "string \<Rightarrow> string \<Rightarrow> edge" where
  "source_target u v = \<lparr>e_from = None, e_from_node = None, e_source = Some u,
                        e_to = None, e_to_node = None, e_target = Some v\<rparr>"

text \<open>A source feeding a sink, and a second edge whose \<open>from\<close> names no node.\<close>

definition dangling_pipeline :: pipeline where
  "dangling_pipeline =
     \<lparr>p_nodes = [mk_node ''a'' ''SOURCE'' ''CSV_SOURCE'' [(''file_path'', JStr ''in.csv'')],
                 mk_node ''b'' ''LOAD'' ''CSV_LOAD'' [(''output_path'', JStr ''out.csv'')]],
      p_edges = [from_to ''a'' ''b'', from_to ''ghost'' ''b'']\<rparr>"

text \<open>The cycle \<open>c \<rightarrow> d \<rightarrow> c\<close> is reached from \<open>a\<close>; the later root \<open>b\<close> has an edge
  to \<open>a\<close>.\<close>

definition stale_stack_pipeline :: pipeline where
  "stale_stack_pipeline =
     \<lparr>p_nodes = [mk_node ''a'' ''TRANSFORM'' ''SELECT'' [],
                 mk_node ''c'' ''TRANSFORM'' ''SELECT'' [],
                 mk_node ''d'' ''TRANSFORM'' ''SELECT'' [],
                 mk_node ''b'' ''SOURCE'' ''CSV_SOURCE'' []],
      p_edges = [from_to ''a'' ''c'', from_to ''c'' ''d'', from_to ''d'' ''c'',
                 from_to ''b'' ''a'']\<rparr>"

text \<open>A valid two-node pipeline whose only edge is written with \<open>source\<close>/\<open>target\<close>.\<close>

definition alias_pipeline :: pipeline where
  "alias_pipeline =
     \<lparr>p_nodes = [mk_node ''S'' ''SOURCE'' ''CSV_SOURCE'' [(''file_path'', JStr ''in.csv'')],
                 mk_node ''L'' ''LOAD'' ''CSV_LOAD'' [(''output_path'', JStr ''out.csv'')]],
      p_edges = [source_target ''S'' ''L'']\<rparr>"


section \<open>Properties of the validator\<close>

text \<open>
  C1. The specification says that \<open>validate\<close> never raises, whatever the graph, and names
  edges whose endpoint is no node of the graph. On \<open>dangling_pipeline\<close> the edge loop of
  \<open>detect_cycles\<close> looks up \<open>adjacency['ghost']\<close> and the \<open>KeyError\<close> leaves
  \<open>validate_pipeline\<close>: no result is returned, and \<open>validate_edges\<close>, which would report
  the edge, is never reached.
\<close>

theorem validate_raises_on_dangling_edge:
  "validate_pipeline dangling_pipeline = Inl (KeyError (Some ''ghost''))"
  by code_simp

text \<open>
  C2. The specification says that \<open>validate\<close> returns \<open>is_valid = false\<close> with a message
  naming the cycle for every graph with a directed cycle, and that the topological order
  fails on it. \<open>stale_stack_pipeline\<close> has the cycle \<open>c \<rightarrow> d \<rightarrow> c\<close>. The first \<open>dfs\<close>
  reports it and returns with \<open>a\<close>, \<open>c\<close>, \<open>d\<close> left in \<open>rec_stack\<close>; the \<open>dfs\<close>
  from \<open>b\<close> then finds \<open>a\<close> in \<open>rec_stack\<close> but not on its own path, and
  \<open>path.index\<close> raises \<open>ValueError\<close>. \<open>validate_pipeline\<close> returns nothing;
  \<open>topological_sort\<close> does raise its cycle error.
\<close>

theorem validate_raises_on_cyclic_graph:
  "validate_pipeline stale_stack_pipeline = Inl (ValueError (quoted ''a'' @ '' is not in list''))
   \<and> topological_sort (p_nodes stale_stack_pipeline) (p_edges stale_stack_pipeline)
       = Inl (ValueError ''Pipeline contains cycles - cannot execute'')"
  by code_simp







section \<open>Properties of the topological order\<close>

text \<open>The edges of the graph as \<open>topological_sort\<close> reads them: the pairs \<open>(from, to)\<close>
  of the edges that give both endpoints.\<close>

definition edge_pairs :: "edge list \<Rightarrow> (string \<times> string) list" where
  "edge_pairs edges =
     concat (map (\<lambda>e. case ts_from e of
                          None \<Rightarrow> []
                        | Some u \<Rightarrow> (case ts_to e of None \<Rightarrow> [] | Some v \<Rightarrow> [(u, v)])) edges)"

text \<open>\<open>u\<close> appears before \<open>v\<close> in the list \<open>xs\<close>.\<close>

definition before :: "'a list \<Rightarrow> 'a \<Rightarrow> 'a \<Rightarrow> bool" where
  "before xs u v =
     (case index_of xs u of
        None \<Rightarrow> False
      | Some i \<Rightarrow> (case index_of xs v of None \<Rightarrow> False | Some j \<Rightarrow> i < j))"

text \<open>The targets of the edges leaving \<open>u\<close>, in edge order, and the number of edges
  entering \<open>v\<close>.\<close>

definition out_of :: "(string \<times> string) list \<Rightarrow> string \<Rightarrow> string list" where
  "out_of ps u = map snd (filter (\<lambda>p. fst p = u) ps)"

definition into :: "(string \<times> string) list \<Rightarrow> string \<Rightarrow> nat" where
  "into ps v = length (filter (\<lambda>p. snd p = v) ps)"

lemma edge_pairs_Cons:
  "ts_from e = Some u \<Longrightarrow> ts_to e = Some v \<Longrightarrow> edge_pairs (e # es) = (u, v) # edge_pairs es"
  by (simp add: edge_pairs_def)

lemma edge_pairs_Nil: "edge_pairs [] = []"
  by (simp add: edge_pairs_def)

lemma fold_update_map_of:
  "map_of (fold (\<lambda>n d. AList.update (n_id n) c d) nodes d0) k =
     (if k \<in> n_id ` set nodes then Some c else map_of d0 k)"
  by (induction nodes arbitrary: d0) (auto simp: update_conv')

lemma fold_update_distinct:
  "distinct (map fst d0) \<Longrightarrow> distinct (map fst (fold (\<lambda>n d. AList.update (n_id n) c d) nodes d0))"
  by (induction nodes arbitrary: d0) (auto simp: distinct_update)

lemma update_keys_present:
  "map_of al k = Some v \<Longrightarrow> map fst (AList.update k v' al) = map fst al"
  by (induction al) auto

lemma ts_add_edges_result:
  assumes "\<forall>e\<in>set es. \<exists>u v. ts_from e = Some u \<and> ts_to e = Some v
              \<and> u \<in> dom (map_of adj) \<and> v \<in> dom (map_of indeg)"
  shows "\<exists>adj' indeg'. ts_add_edges es (adj, indeg) = Inr (adj', indeg')
           \<and> (\<forall>k. map_of adj' k = map_option (\<lambda>l. l @ out_of (edge_pairs es) k) (map_of adj k))
           \<and> (\<forall>k. map_of indeg' k = map_option (\<lambda>d. d + int (into (edge_pairs es) k)) (map_of indeg k))
           \<and> map fst indeg' = map fst indeg"
  using assms
proof (induction es arbitrary: adj indeg)
  case Nil
  show ?case by (simp add: edge_pairs_Nil out_of_def into_def option.map_ident)
next
  case (Cons e es)
  then obtain u v l d where uv: "ts_from e = Some u" "ts_to e = Some v"
    and l: "map_of adj u = Some l" and d: "map_of indeg v = Some d"
    by fastforce
  let ?adj1 = "AList.update u (l @ [v]) adj"
  let ?indeg1 = "AList.update v (d + 1) indeg"
  have step: "ts_add_edge e (adj, indeg) = Inr (?adj1, ?indeg1)"
    by (simp add: ts_add_edge_def uv l d)
  have doms: "dom (map_of ?adj1) = dom (map_of adj)" "dom (map_of ?indeg1) = dom (map_of indeg)"
    using l d by (auto simp: update_conv')
  have "\<forall>e\<in>set es. \<exists>u v. ts_from e = Some u \<and> ts_to e = Some v
              \<and> u \<in> dom (map_of ?adj1) \<and> v \<in> dom (map_of ?indeg1)"
    using Cons.prems unfolding doms by simp
  from Cons.IH[OF this] obtain adj' indeg' where
    r: "ts_add_edges es (?adj1, ?indeg1) = Inr (adj', indeg')"
    and a: "\<And>k. map_of adj' k = map_option (\<lambda>l. l @ out_of (edge_pairs es) k) (map_of ?adj1 k)"
    and i: "\<And>k. map_of indeg' k = map_option (\<lambda>d. d + int (into (edge_pairs es) k)) (map_of ?indeg1 k)"
    and f: "map fst indeg' = map fst ?indeg1"
    by blast
  have ep: "edge_pairs (e # es) = (u, v) # edge_pairs es"
    using uv by (rule edge_pairs_Cons)
  have "ts_add_edges (e # es) (adj, indeg) = Inr (adj', indeg')"
    using step r by simp
  moreover have "map_of adj' k = map_option (\<lambda>l. l @ out_of (edge_pairs (e # es)) k) (map_of adj k)" for k
    unfolding a ep using l by (cases "k = u") (auto simp: update_conv' out_of_def)
  moreover have "map_of indeg' k = map_option (\<lambda>d. d + int (into (edge_pairs (e # es)) k)) (map_of indeg k)" for k
    unfolding i ep using d by (cases "k = v") (auto simp: update_conv' into_def)
  moreover have "map fst indeg' = map fst indeg"
    unfolding f using d by (rule update_keys_present)
  ultimately show ?case by blast
qed

lemma relax_result:
  assumes "set ns \<subseteq> dom (map_of indeg)"
  shows "\<exists>indeg' new. relax ns indeg q = Inr (indeg', q @ new)
           \<and> distinct new
           \<and> set new = {k. \<exists>d. map_of indeg k = Some d \<and> 1 \<le> d \<and> d \<le> int (count_list ns k)}
           \<and> (\<forall>k. map_of indeg' k = map_option (\<lambda>d. d - int (count_list ns k)) (map_of indeg k))"
  using assms
proof (induction ns arbitrary: indeg q)
  case Nil
  show ?case by (auto simp: option.map_ident)
next
  case (Cons n ns)
  then obtain d where d: "map_of indeg n = Some d" by auto
  let ?indeg1 = "AList.update n (d - 1) indeg"
  let ?q1 = "if d - 1 = 0 then q @ [n] else q"
  have "set ns \<subseteq> dom (map_of ?indeg1)"
    using Cons.prems by (auto simp: update_conv')
  from Cons.IH[OF this, of ?q1] obtain indeg' new where
    r: "relax ns ?indeg1 ?q1 = Inr (indeg', ?q1 @ new)"
    and dn: "distinct new"
    and sn: "set new = {k. \<exists>d'. map_of ?indeg1 k = Some d' \<and> 1 \<le> d' \<and> d' \<le> int (count_list ns k)}"
    and m: "\<And>k. map_of indeg' k = map_option (\<lambda>d. d - int (count_list ns k)) (map_of ?indeg1 k)"
    by blast
  let ?new = "(if d - 1 = 0 then [n] else []) @ new"
  have 1: "relax (n # ns) indeg q = Inr (indeg', q @ ?new)"
    using r d by simp
  have 2: "distinct ?new"
    using dn sn by (auto simp: update_conv')
  have 3: "set ?new = {k. \<exists>d. map_of indeg k = Some d \<and> 1 \<le> d \<and> d \<le> int (count_list (n # ns) k)}"
  proof (rule set_eqI)
    fix k
    show "k \<in> set ?new \<longleftrightarrow> k \<in> {k. \<exists>d. map_of indeg k = Some d \<and> 1 \<le> d \<and> d \<le> int (count_list (n # ns) k)}"
    proof (cases "k = n")
      case True
      then show ?thesis using d sn by (auto simp: update_conv')
    next
      case False
      then show ?thesis using d sn by (auto simp: update_conv')
    qed
  qed
  have 4: "map_of indeg' k = map_option (\<lambda>d. d - int (count_list (n # ns) k)) (map_of indeg k)" for k
    unfolding m using d by (cases "k = n") (auto simp: update_conv')
  from 1 2 3 4 show ?case by blast
qed

lemma index_of_None_iff: "index_of xs x = None \<longleftrightarrow> x \<notin> set xs"
  by (induction xs) auto

lemma index_of_less: "index_of xs x = Some i \<Longrightarrow> i < length xs"
  by (induction xs arbitrary: i) (auto split: if_splits)

lemma index_of_append_mem: "x \<in> set xs \<Longrightarrow> index_of (xs @ ys) x = index_of xs x"
  by (induction xs) auto

lemma index_of_snoc_new: "x \<notin> set xs \<Longrightarrow> index_of (xs @ [x]) x = Some (length xs)"
  by (induction xs) auto

lemma index_of_Some_mem: "index_of xs x = Some i \<Longrightarrow> x \<in> set xs"
  using index_of_None_iff[of xs x] by auto

lemma before_mem: "before xs u v \<Longrightarrow> u \<in> set xs \<and> v \<in> set xs"
  unfolding before_def
  by (cases "index_of xs u"; cases "index_of xs v") (auto dest: index_of_Some_mem)

lemma before_append: "before xs u v \<Longrightarrow> before (xs @ ys) u v"
proof -
  assume b: "before xs u v"
  have "u \<in> set xs" "v \<in> set xs" using before_mem[OF b] by simp_all
  then have "index_of (xs @ ys) u = index_of xs u" "index_of (xs @ ys) v = index_of xs v"
    by (simp_all add: index_of_append_mem)
  with b show ?thesis unfolding before_def by (auto split: option.splits)
qed

lemma before_snoc: "u \<in> set xs \<Longrightarrow> n \<notin> set xs \<Longrightarrow> before (xs @ [n]) u n"
proof -
  assume u: "u \<in> set xs" and n: "n \<notin> set xs"
  then obtain i where i: "index_of xs u = Some i"
    by (cases "index_of xs u") (auto simp: index_of_None_iff)
  then have "i < length xs" by (rule index_of_less)
  then show ?thesis
    using u n i by (simp add: before_def index_of_append_mem index_of_snoc_new)
qed

text \<open>The number of edges entering \<open>v\<close> from a node outside \<open>S\<close>: what
  \<open>in_degree[v]\<close> holds when \<open>S\<close> is the set of nodes already sorted.\<close>

definition cnt_in :: "(string \<times> string) list \<Rightarrow> string set \<Rightarrow> string \<Rightarrow> nat" where
  "cnt_in ps S v = length (filter (\<lambda>p. snd p = v \<and> fst p \<notin> S) ps)"

lemma cnt_in_insert:
  "n \<notin> S \<Longrightarrow> cnt_in ps S k = cnt_in ps (insert n S) k + count_list (out_of ps n) k"
  by (induction ps) (auto simp: cnt_in_def out_of_def)

lemma cnt_in_zero_iff: "cnt_in ps S k = 0 \<longleftrightarrow> (\<forall>u. (u, k) \<in> set ps \<longrightarrow> u \<in> S)"
  unfolding cnt_in_def by (auto simp: filter_empty_conv)

lemma cnt_in_empty: "cnt_in ps {} k = into ps k"
  by (simp add: cnt_in_def into_def)

text \<open>The invariant of the queue loop.\<close>

definition kahn_inv ::
  "(string \<times> string) list \<Rightarrow> string set \<Rightarrow> in_degree \<Rightarrow> string list \<Rightarrow> string list \<Rightarrow> bool" where
  "kahn_inv ps V indeg queue sorted_nodes \<longleftrightarrow>
     distinct (sorted_nodes @ queue) \<and> set (sorted_nodes @ queue) \<subseteq> V \<and>
     (\<forall>k. map_of indeg k = (if k \<in> V then Some (int (cnt_in ps (set sorted_nodes) k)) else None)) \<and>
     (\<forall>k\<in>V. k \<in> set queue \<longleftrightarrow> k \<notin> set sorted_nodes \<and> cnt_in ps (set sorted_nodes) k = 0) \<and>
     (\<forall>u v. (u, v) \<in> set ps \<longrightarrow> v \<in> set sorted_nodes \<longrightarrow> before sorted_nodes u v)"

lemma kahn_invD:
  assumes "kahn_inv ps V indeg queue srt"
  shows "distinct (srt @ queue)" and "set (srt @ queue) \<subseteq> V"
    and "map_of indeg k = (if k \<in> V then Some (int (cnt_in ps (set srt) k)) else None)"
    and "k \<in> V \<Longrightarrow> k \<in> set queue \<longleftrightarrow> k \<notin> set srt \<and> cnt_in ps (set srt) k = 0"
    and "(u, v) \<in> set ps \<Longrightarrow> v \<in> set srt \<Longrightarrow> before srt u v"
  using assms unfolding kahn_inv_def by blast+

lemma kahn_invI:
  assumes "distinct (srt @ queue)" and "set (srt @ queue) \<subseteq> V"
    and "\<And>k. map_of indeg k = (if k \<in> V then Some (int (cnt_in ps (set srt) k)) else None)"
    and "\<And>k. k \<in> V \<Longrightarrow> k \<in> set queue \<longleftrightarrow> k \<notin> set srt \<and> cnt_in ps (set srt) k = 0"
    and "\<And>u v. (u, v) \<in> set ps \<Longrightarrow> v \<in> set srt \<Longrightarrow> before srt u v"
  shows "kahn_inv ps V indeg queue srt"
  unfolding kahn_inv_def using assms by blast

lemma kahn_inv_step:
  assumes psV: "set ps \<subseteq> V \<times> V"
    and inv: "kahn_inv ps V indeg (n # q) srt"
    and rel: "relax (out_of ps n) indeg q = Inr (indeg', q')"
  shows "kahn_inv ps V indeg' q' (srt @ [n])"
proof -
  let ?S = "set srt"
  note dist = kahn_invD(1)[OF inv] and sub = kahn_invD(2)[OF inv]
    and deg = kahn_invD(3)[OF inv] and qu = kahn_invD(4)[OF inv] and ord = kahn_invD(5)[OF inv]
  have nV: "n \<in> V" and nS: "n \<notin> ?S" and nq: "n \<notin> set q" using dist sub by auto
  have n0: "cnt_in ps ?S n = 0" using qu[OF nV] by simp
  have closed: "cnt_in ps ?S k = 0" if k: "k \<in> ?S" for k
  proof -
    have "u \<in> ?S" if "(u, k) \<in> set ps" for u
      using before_mem[OF ord[OF that k]] by simp
    then show ?thesis unfolding cnt_in_zero_iff by blast
  qed
  have outV: "set (out_of ps n) \<subseteq> V" using psV by (auto simp: out_of_def)
  then have "set (out_of ps n) \<subseteq> dom (map_of indeg)" using deg by (auto simp: dom_def)
  from relax_result[OF this, of q] obtain i2 new where
    r2: "relax (out_of ps n) indeg q = Inr (i2, q @ new)" and dnew: "distinct new"
    and snew: "set new = {k. \<exists>d. map_of indeg k = Some d \<and> 1 \<le> d \<and> d \<le> int (count_list (out_of ps n) k)}"
    and deg2: "\<And>k. map_of i2 k = map_option (\<lambda>d. d - int (count_list (out_of ps n) k)) (map_of indeg k)"
    by blast
  from rel r2 have i2: "i2 = indeg'" and q': "q' = q @ new" by simp_all
  note deg' = deg2[unfolded i2]
  have split: "cnt_in ps ?S k = cnt_in ps (insert n ?S) k + count_list (out_of ps n) k" for k
    using cnt_in_insert[OF nS] .
  have new_iff: "k \<in> set new \<longleftrightarrow> k \<in> V \<and> 1 \<le> cnt_in ps ?S k \<and> cnt_in ps (insert n ?S) k = 0" for k
  proof (cases "k \<in> V")
    case True
    then have "k \<in> set new \<longleftrightarrow> 1 \<le> int (cnt_in ps ?S k) \<and> int (cnt_in ps ?S k) \<le> int (count_list (out_of ps n) k)"
      unfolding snew by (simp add: deg)
    then show ?thesis using split[of k] True by auto
  next
    case False
    then show ?thesis unfolding snew by (simp add: deg)
  qed
  have 1: "distinct ((srt @ [n]) @ q')"
  proof -
    have "k \<notin> set srt \<and> k \<noteq> n \<and> k \<notin> set q" if "k \<in> set new" for k
    proof -
      from that have kV: "k \<in> V" and pos: "1 \<le> cnt_in ps ?S k" using new_iff by auto
      have "k \<notin> set srt" using closed[of k] pos by auto
      moreover have "k \<noteq> n" using n0 pos by auto
      moreover have "k \<notin> set q" using qu[OF kV] pos by auto
      ultimately show ?thesis by simp
    qed
    then show ?thesis using dist dnew unfolding q' by auto
  qed
  have 2: "set ((srt @ [n]) @ q') \<subseteq> V"
    using sub new_iff unfolding q' by auto
  have 3: "map_of indeg' k = (if k \<in> V then Some (int (cnt_in ps (set (srt @ [n])) k)) else None)" for k
    unfolding deg' deg using split[of k] by simp
  have 4: "k \<in> set q' \<longleftrightarrow> k \<notin> set (srt @ [n]) \<and> cnt_in ps (set (srt @ [n])) k = 0" if kV: "k \<in> V" for k
  proof
    assume "k \<in> set q'"
    then consider "k \<in> set q" | "k \<in> set new" unfolding q' by auto
    then show "k \<notin> set (srt @ [n]) \<and> cnt_in ps (set (srt @ [n])) k = 0"
    proof cases
      case 1
      then have "k \<notin> ?S" "cnt_in ps ?S k = 0" "k \<noteq> n" using qu[OF kV] nq by auto
      then show ?thesis using split[of k] by simp
    next
      case 2
      then have pos: "1 \<le> cnt_in ps ?S k" and z: "cnt_in ps (insert n ?S) k = 0"
        using new_iff by auto
      have "k \<notin> ?S" using closed[of k] pos by auto
      moreover have "k \<noteq> n" using n0 pos by auto
      ultimately show ?thesis using z by simp
    qed
  next
    assume a: "k \<notin> set (srt @ [n]) \<and> cnt_in ps (set (srt @ [n])) k = 0"
    then have kS: "k \<notin> ?S" and kn: "k \<noteq> n" and z: "cnt_in ps (insert n ?S) k = 0" by auto
    show "k \<in> set q'"
    proof (cases "cnt_in ps ?S k = 0")
      case True
      then have "k \<in> set (n # q)" using qu[OF kV] kS by simp
      then show ?thesis using kn unfolding q' by simp
    next
      case False
      then have "k \<in> set new" using new_iff[of k] kV z by simp
      then show ?thesis unfolding q' by simp
    qed
  qed
  have 5: "before (srt @ [n]) u v" if e: "(u, v) \<in> set ps" and v: "v \<in> set (srt @ [n])" for u v
  proof (cases "v \<in> ?S")
    case True
    show ?thesis using before_append[OF ord[OF e True]] .
  next
    case False
    then have "v = n" using v by simp
    moreover have "u \<in> ?S" using n0 e \<open>v = n\<close> unfolding cnt_in_zero_iff by blast
    ultimately show ?thesis using before_snoc[of u srt n] nS by simp
  qed
  show ?thesis
    by (rule kahn_invI) (use 1 2 3 4 5 in blast)+
qed

lemma kahn_loop_inv:
  assumes "set ps \<subseteq> V \<times> V"
    and "\<forall>k. map_of adj k = (if k \<in> V then Some (out_of ps k) else None)"
    and "kahn_inv ps V indeg queue srt"
  shows "\<exists>res indeg'. kahn_loop adj indeg queue srt = Inr res \<and> kahn_inv ps V indeg' [] res"
  using assms
proof (induction adj indeg queue srt rule: kahn_loop.induct)
  case (1 adjacency in_degree sorted_nodes)
  then show ?case by auto
next
  case (2 adjacency in_degree node_id queue sorted_nodes)
  from kahn_invD(2)[OF 2(4)] have nV: "node_id \<in> V" by simp
  then have a: "map_of adjacency node_id = Some (out_of ps node_id)" using 2(3) by simp
  have "set (out_of ps node_id) \<subseteq> V" using 2(2) by (auto simp: out_of_def)
  then have "set (out_of ps node_id) \<subseteq> dom (map_of in_degree)"
    using kahn_invD(3)[OF 2(4)] by (auto simp: dom_def)
  from relax_result[OF this, of queue] obtain indeg' q' where
    r: "relax (out_of ps node_id) in_degree queue = Inr (indeg', q')" by blast
  have inv': "kahn_inv ps V indeg' q' (sorted_nodes @ [node_id])"
    using kahn_inv_step[OF 2(2) 2(4) r] .
  from 2(1)[OF a r refl 2(2) 2(3) inv'] show ?case
    using a r by simp
qed

lemma edge_pairs_set:
  "(u, v) \<in> set (edge_pairs es) \<longleftrightarrow> (\<exists>e\<in>set es. ts_from e = Some u \<and> ts_to e = Some v)"
proof (induction es)
  case Nil
  show ?case by (simp add: edge_pairs_def)
next
  case (Cons e es)
  have "edge_pairs (e # es) =
      (case ts_from e of None \<Rightarrow> []
       | Some u \<Rightarrow> (case ts_to e of None \<Rightarrow> [] | Some v \<Rightarrow> [(u, v)])) @ edge_pairs es"
    by (simp add: edge_pairs_def)
  then show ?case using Cons.IH
    by (cases "ts_from e"; cases "ts_to e") auto
qed

lemma kahn_complete:
  assumes inv: "kahn_inv ps V indeg [] res"
    and psV: "set ps \<subseteq> V \<times> V"
    and acyc: "acyclic (set ps)"
  shows "set res = V"
proof (rule ccontr)
  assume neq: "set res \<noteq> V"
  have sub: "set res \<subseteq> V" using kahn_invD(2)[OF inv] by simp
  with neq obtain x where x: "x \<in> V - set res" by blast
  have "wf (set ps)" using acyc by (simp add: finite_acyclic_wf)
  from wfE_min[OF this x] obtain z where z: "z \<in> V - set res"
    and zmin: "\<And>y. (y, z) \<in> set ps \<Longrightarrow> y \<notin> V - set res" by blast
  from z have zV: "z \<in> V" and zr: "z \<notin> set res" by auto
  have "cnt_in ps (set res) z \<noteq> 0" using kahn_invD(4)[OF inv zV] zr by simp
  then obtain u where u: "(u, z) \<in> set ps" "u \<notin> set res"
    unfolding cnt_in_zero_iff by blast
  then have "u \<in> V" using psV by blast
  with u zmin show False by blast
qed

lemma kahn_initial:
  assumes d: "distinct (map fst indeg)"
    and deg: "\<And>k. map_of indeg k = (if k \<in> V then Some (int (into ps k)) else None)"
  shows "kahn_inv ps V indeg (map fst (filter (\<lambda>(node_id, degree). degree = 0) indeg)) []"
proof (rule kahn_invI)
  let ?q = "map fst (filter (\<lambda>(node_id, degree). degree = 0) indeg)"
  have mem: "k \<in> set ?q \<longleftrightarrow> map_of indeg k = Some 0" for k
    using d by (auto simp: map_of_eq_Some_iff image_iff)
  show "distinct ([] @ ?q)" using d by (simp add: distinct_map_filter)
  show "set ([] @ ?q) \<subseteq> V"
  proof
    fix k assume "k \<in> set ([] @ ?q)"
    then have "map_of indeg k = Some 0" using mem by simp
    then show "k \<in> V" using deg[of k] by (simp split: if_splits)
  qed
  show "map_of indeg k = (if k \<in> V then Some (int (cnt_in ps (set []) k)) else None)" for k
    using deg by (simp add: cnt_in_empty)
  show "k \<in> set ?q \<longleftrightarrow> k \<notin> set [] \<and> cnt_in ps (set []) k = 0" if "k \<in> V" for k
    using mem[of k] deg[of k] that by (simp add: cnt_in_empty)
  show "before [] u v" if "(u, v) \<in> set ps" "v \<in> set []" for u v
    using that by simp
qed

lemma acyclic_by_rank:
  fixes rank :: "'a \<Rightarrow> nat"
  assumes "\<forall>(u, v)\<in>set ps. rank u < rank v"
  shows "acyclic (set ps)"
proof -
  have "set ps \<subseteq> measure rank" using assms by auto
  moreover have "acyclic (measure rank)" by (simp add: wf_acyclic)
  ultimately show ?thesis by (rule acyclic_subset[rotated])
qed

text \<open>On a graph whose node ids are distinct and whose edges name nodes, the edge loop
  raises nothing and the queue loop returns a list for which the invariant holds.\<close>

lemma topological_sort_run:
  assumes ids: "distinct (map n_id nodes)"
    and ends: "\<forall>e\<in>set edges. \<exists>u v. ts_from e = Some u \<and> ts_to e = Some v
                 \<and> u \<in> n_id ` set nodes \<and> v \<in> n_id ` set nodes"
  shows "\<exists>res indeg'.
           kahn_inv (edge_pairs edges) (n_id ` set nodes) indeg' [] res
           \<and> set (edge_pairs edges) \<subseteq> n_id ` set nodes \<times> n_id ` set nodes
           \<and> topological_sort nodes edges =
               (if length res \<noteq> length nodes
                then Inl (ValueError ''Pipeline contains cycles - cannot execute'')
                else Inr res)"
proof -
  let ?V = "n_id ` set nodes" and ?ps = "edge_pairs edges"
  let ?adj0 = "empty_adjacency nodes" and ?deg0 = "zero_in_degree nodes"
  have adj0: "map_of ?adj0 k = (if k \<in> ?V then Some [] else None)" for k
    unfolding empty_adjacency_def by (simp add: fold_update_map_of)
  have deg0: "map_of ?deg0 k = (if k \<in> ?V then Some 0 else None)" for k
    unfolding zero_in_degree_def by (simp add: fold_update_map_of)
  have psV: "set ?ps \<subseteq> ?V \<times> ?V"
  proof
    fix p assume p: "p \<in> set ?ps"
    obtain a b where ab: "p = (a, b)" by (cases p)
    from p have "(a, b) \<in> set ?ps" unfolding ab .
    then obtain e where "e \<in> set edges" "ts_from e = Some a" "ts_to e = Some b"
      using edge_pairs_set[of a b edges] by blast
    with ends show "p \<in> ?V \<times> ?V" unfolding ab by fastforce
  qed
  have "\<forall>e\<in>set edges. \<exists>u v. ts_from e = Some u \<and> ts_to e = Some v
          \<and> u \<in> dom (map_of ?adj0) \<and> v \<in> dom (map_of ?deg0)"
  proof
    fix e assume "e \<in> set edges"
    with ends obtain u v where "ts_from e = Some u" "ts_to e = Some v" "u \<in> ?V" "v \<in> ?V"
      by blast
    then show "\<exists>u v. ts_from e = Some u \<and> ts_to e = Some v
          \<and> u \<in> dom (map_of ?adj0) \<and> v \<in> dom (map_of ?deg0)"
      using adj0[of u] deg0[of v] by (auto simp: dom_def)
  qed
  from ts_add_edges_result[OF this] obtain adj indeg where
    build: "ts_add_edges edges (?adj0, ?deg0) = Inr (adj, indeg)"
    and a: "\<And>k. map_of adj k = map_option (\<lambda>l. l @ out_of ?ps k) (map_of ?adj0 k)"
    and i: "\<And>k. map_of indeg k = map_option (\<lambda>d. d + int (into ?ps k)) (map_of ?deg0 k)"
    and f: "map fst indeg = map fst ?deg0"
    by blast
  have adj: "\<forall>k. map_of adj k = (if k \<in> ?V then Some (out_of ?ps k) else None)"
    unfolding a adj0 by simp
  have indeg: "map_of indeg k = (if k \<in> ?V then Some (int (into ?ps k)) else None)" for k
    unfolding i deg0 by simp
  have "distinct (map fst ?deg0)"
    unfolding zero_in_degree_def by (rule fold_update_distinct) simp
  then have dk: "distinct (map fst indeg)" using f by simp
  let ?queue = "map fst (filter (\<lambda>(node_id, degree). degree = 0) indeg)"
  have "kahn_inv ?ps ?V indeg ?queue []"
    using dk indeg by (rule kahn_initial)
  from kahn_loop_inv[OF psV adj this] obtain res indeg' where
    loop: "kahn_loop adj indeg ?queue [] = Inr res" and inv: "kahn_inv ?ps ?V indeg' [] res"
    by blast
  have "topological_sort nodes edges =
               (if length res \<noteq> length nodes
                then Inl (ValueError ''Pipeline contains cycles - cannot execute'')
                else Inr res)"
    unfolding topological_sort_def using build loop by simp
  with inv psV show ?thesis by blast
qed

lemma before_acyclic:
  assumes "\<And>u v. (u, v) \<in> set ps \<Longrightarrow> before res u v"
  shows "acyclic (set ps)"
proof (rule acyclic_by_rank[where rank = "\<lambda>x. case index_of res x of None \<Rightarrow> 0 | Some i \<Rightarrow> i"])
  show "\<forall>(u, v)\<in>set ps.
      (case index_of res u of None \<Rightarrow> 0 | Some i \<Rightarrow> i)
      < (case index_of res v of None \<Rightarrow> 0 | Some i \<Rightarrow> i)"
  proof (clarify)
    fix u v assume "(u, v) \<in> set ps"
    from assms[OF this] show "(case index_of res u of None \<Rightarrow> 0 | Some i \<Rightarrow> i)
      < (case index_of res v of None \<Rightarrow> 0 | Some i \<Rightarrow> i)"
      unfolding before_def by (auto split: option.splits)
  qed
qed

text \<open>A join of two sources feeding a sink, the nodes listed sink first.\<close>

definition diamond_nodes :: "node list" where
  "diamond_nodes = [mk_node ''L'' ''LOAD'' ''CSV_LOAD'' [], mk_node ''J'' ''TRANSFORM'' ''JOIN'' [],
     mk_node ''S1'' ''SOURCE'' ''CSV_SOURCE'' [], mk_node ''S2'' ''SOURCE'' ''CSV_SOURCE'' []]"

definition diamond_edges :: "edge list" where
  "diamond_edges = [from_to ''J'' ''L'', from_to ''S1'' ''J'', from_to ''S2'' ''J'']"

definition diamond_rank :: "string \<Rightarrow> nat" where
  "diamond_rank s = (if s = ''L'' then 2 else if s = ''J'' then 1 else 0)"

text \<open>
  C3. For every valid DAG (node ids distinct, every edge giving both endpoints under the
  keys \<open>topological_sort\<close> reads and naming nodes of the graph, no directed cycle),
  \<open>topological_sort\<close> returns an order that is a permutation of the node ids and in
  which \<open>u\<close> appears before \<open>v\<close> for every edge \<open>(u, v)\<close>.
\<close>

theorem topological_sort_dag:
  assumes ids: "distinct (map n_id nodes)"
    and ends: "\<forall>e\<in>set edges. \<exists>u v. ts_from e = Some u \<and> ts_to e = Some v
                 \<and> u \<in> n_id ` set nodes \<and> v \<in> n_id ` set nodes"
    and dag: "acyclic (set (edge_pairs edges))"
  shows "\<exists>order. topological_sort nodes edges = Inr order
           \<and> mset order = mset (map n_id nodes)
           \<and> (\<forall>(u, v)\<in>set (edge_pairs edges). before order u v)"
proof -
  let ?V = "n_id ` set nodes" and ?ps = "edge_pairs edges"
  from topological_sort_run[OF ids ends] obtain res indeg' where
    inv: "kahn_inv ?ps ?V indeg' [] res" and psV: "set ?ps \<subseteq> ?V \<times> ?V"
    and run: "topological_sort nodes edges =
               (if length res \<noteq> length nodes
                then Inl (ValueError ''Pipeline contains cycles - cannot execute'')
                else Inr res)"
    by blast
  have all: "set res = ?V" using kahn_complete[OF inv psV dag] .
  have dres: "distinct res" using kahn_invD(1)[OF inv] by simp
  have perm: "mset res = mset (map n_id nodes)"
    using set_eq_iff_mset_eq_distinct[OF dres ids] all by simp
  then have "length res = length nodes"
    using mset_eq_length by fastforce
  then have "topological_sort nodes edges = Inr res"
    using run by simp
  moreover have "before res u v" if "(u, v) \<in> set ?ps" for u v
  proof -
    from that psV have "v \<in> set res" unfolding all by blast
    then show ?thesis using kahn_invD(5)[OF inv that] by simp
  qed
  ultimately show ?thesis using perm by blast
qed

theorem topological_sort_dag_witness:
  "distinct (map n_id diamond_nodes)
   \<and> acyclic (set (edge_pairs diamond_edges))
   \<and> topological_sort diamond_nodes diamond_edges = Inr [''S1'', ''S2'', ''J'', ''L'']
   \<and> (\<exists>order. topological_sort diamond_nodes diamond_edges = Inr order
           \<and> mset order = mset (map n_id diamond_nodes)
           \<and> before order ''J'' ''L'' \<and> before order ''S1'' ''J'' \<and> before order ''S2'' ''J'')"
proof -
  have ids: "distinct (map n_id diamond_nodes)"
    by (simp add: diamond_nodes_def mk_node_def)
  have ps: "edge_pairs diamond_edges = [(''J'', ''L''), (''S1'', ''J''), (''S2'', ''J'')]"
    by (simp add: edge_pairs_def diamond_edges_def from_to_def ts_from_def ts_to_def py_or_def)
  have ends: "\<forall>e\<in>set diamond_edges. \<exists>u v. ts_from e = Some u \<and> ts_to e = Some v
                 \<and> u \<in> n_id ` set diamond_nodes \<and> v \<in> n_id ` set diamond_nodes"
    by (simp add: diamond_edges_def diamond_nodes_def mk_node_def from_to_def ts_from_def ts_to_def py_or_def)
  have dag: "acyclic (set (edge_pairs diamond_edges))"
    by (rule acyclic_by_rank[where rank = diamond_rank]) (simp add: ps diamond_rank_def)
  have run: "topological_sort diamond_nodes diamond_edges = Inr [''S1'', ''S2'', ''J'', ''L'']"
    by code_simp
  from topological_sort_dag[OF ids ends dag] ids dag run show ?thesis
    by (simp add: ps)
qed

text \<open>
  On a graph with distinct node ids whose edges name nodes and which has a directed
  cycle, \<open>topological_sort\<close> raises its cycle error: the queue loop never reaches the
  nodes of a cycle, so the list it returns is shorter than the node list.
\<close>

theorem topological_sort_cycle:
  assumes ids: "distinct (map n_id nodes)"
    and ends: "\<forall>e\<in>set edges. \<exists>u v. ts_from e = Some u \<and> ts_to e = Some v
                 \<and> u \<in> n_id ` set nodes \<and> v \<in> n_id ` set nodes"
    and cyc: "\<not> acyclic (set (edge_pairs edges))"
  shows "topological_sort nodes edges = Inl (ValueError ''Pipeline contains cycles - cannot execute'')"
proof -
  let ?V = "n_id ` set nodes" and ?ps = "edge_pairs edges"
  from topological_sort_run[OF ids ends] obtain res indeg' where
    inv: "kahn_inv ?ps ?V indeg' [] res" and psV: "set ?ps \<subseteq> ?V \<times> ?V"
    and run: "topological_sort nodes edges =
               (if length res \<noteq> length nodes
                then Inl (ValueError ''Pipeline contains cycles - cannot execute'')
                else Inr res)"
    by blast
  have dres: "distinct res" and sub: "set res \<subseteq> ?V"
    using kahn_invD(1,2)[OF inv] by simp_all
  have "length res \<noteq> length nodes"
  proof
    assume len: "length res = length nodes"
    have "card (set res) = length nodes" using dres len by (simp add: distinct_card)
    moreover have "card ?V = length nodes"
      using ids distinct_card[of "map n_id nodes"] by simp
    ultimately have all: "set res = ?V"
      using sub by (intro card_subset_eq) auto
    have "before res u v" if "(u, v) \<in> set ?ps" for u v
    proof -
      from that psV have "v \<in> set res" unfolding all by blast
      then show ?thesis using kahn_invD(5)[OF inv that] by simp
    qed
    then have "acyclic (set ?ps)" by (rule before_acyclic)
    with cyc show False by simp
  qed
  then show ?thesis using run by simp
qed

theorem topological_sort_cycle_witness:
  "distinct (map n_id (p_nodes stale_stack_pipeline))
   \<and> \<not> acyclic (set (edge_pairs (p_edges stale_stack_pipeline)))
   \<and> topological_sort (p_nodes stale_stack_pipeline) (p_edges stale_stack_pipeline)
       = Inl (ValueError ''Pipeline contains cycles - cannot execute'')"
proof -
  have ids: "distinct (map n_id (p_nodes stale_stack_pipeline))"
    by (simp add: stale_stack_pipeline_def mk_node_def)
  have ps: "edge_pairs (p_edges stale_stack_pipeline)
      = [(''a'', ''c''), (''c'', ''d''), (''d'', ''c''), (''b'', ''a'')]"
    by (simp add: edge_pairs_def stale_stack_pipeline_def from_to_def ts_from_def ts_to_def py_or_def)
  have ends: "\<forall>e\<in>set (p_edges stale_stack_pipeline). \<exists>u v. ts_from e = Some u \<and> ts_to e = Some v
                 \<and> u \<in> n_id ` set (p_nodes stale_stack_pipeline)
                 \<and> v \<in> n_id ` set (p_nodes stale_stack_pipeline)"
    by (simp add: stale_stack_pipeline_def mk_node_def from_to_def ts_from_def ts_to_def py_or_def)
  have "(''c'', ''c'') \<in> (set (edge_pairs (p_edges stale_stack_pipeline)))\<^sup>+"
    unfolding ps by (rule trancl_into_trancl[where b = "''d''"]) auto
  then have cyc: "\<not> acyclic (set (edge_pairs (p_edges stale_stack_pipeline)))"
    unfolding acyclic_def by blast
  from topological_sort_cycle[OF ids ends cyc] ids cyc show ?thesis by blast
qed

text \<open>
  C4. The specification asks that the aliases \<open>source\<close> and \<open>target\<close> be accepted with
  the same behaviour by validation, topological ordering and input resolution.
  \<open>alias_pipeline\<close> writes its only edge with these keys: the validator (which reads
  them, as the executor's input resolution does) finds the pipeline valid, and
  \<open>topological_sort\<close>, which reads only \<open>from\<close>/\<open>from_node\<close> and \<open>to\<close>/\<open>to_node\<close>,
  looks up \<open>adjacency[None]\<close> and raises \<open>KeyError\<close>.
\<close>

theorem source_target_alias_divergence:
  "validate_pipeline alias_pipeline = Inr (True, [])
   \<and> topological_sort (p_nodes alias_pipeline) (p_edges alias_pipeline) = Inl (KeyError None)"
  by code_simp

section \<open>Pipeline executor\<close>

subsection \<open>Datasets\<close>

text \<open>
  A dataset is a pandas \<open>DataFrame\<close>: column labels and rows of cells. A cell is
  missing (\<open>None\<close>/\<open>NaN\<close>), an integer or a string; a column that holds at least one
  string is an object column, a column with at least one integer and no string is a
  numeric one, and a column with no cell or only missing cells is read as an (empty)
  object column. Floating-point cells are not modelled.
\<close>

datatype cell = CNull | CInt int | CStr string

record dataframe =
  df_columns :: "string list"
  df_rows :: "cell list list"

definition len_df :: "dataframe \<Rightarrow> nat" where
  "len_df df = length (df_rows df)"

subsection \<open>Python values\<close>

text \<open>\<open>str(v)\<close> and \<open>repr(v)\<close> of a JSON value, as f-strings print them.\<close>

fun py_repr :: "json \<Rightarrow> string" where
  "py_repr JNull = ''None''"
| "py_repr (JBool b) = (if b then ''True'' else ''False'')"
| "py_repr (JInt i) = show_int i"
| "py_repr (JStr s) = repr_str s"
| "py_repr (JList xs) = ''['' @ join '', '' (map py_repr xs) @ '']''"
| "py_repr (JDict kvs) =
     ''{'' @ join '', '' (map (\<lambda>kv. repr_str (fst kv) @ '': '' @ py_repr (snd kv)) kvs) @ ''}''"

definition py_str :: "json \<Rightarrow> string" where
  "py_str v = (case v of JStr s \<Rightarrow> s | _ \<Rightarrow> py_repr v)"

text \<open>\<open>config.get(k)\<close> is \<open>None\<close> for an absent key; \<open>config.get(k, d)\<close> is \<open>d\<close>.\<close>

definition cfg_get :: "config \<Rightarrow> string \<Rightarrow> json" where
  "cfg_get c k = (case map_of c k of None \<Rightarrow> JNull | Some v \<Rightarrow> v)"

definition cfg_get_default :: "config \<Rightarrow> string \<Rightarrow> json \<Rightarrow> json" where
  "cfg_get_default c k d = (case map_of c k of None \<Rightarrow> d | Some v \<Rightarrow> v)"

definition type_name :: "json \<Rightarrow> string" where
  "type_name v = (case v of JNull \<Rightarrow> ''NoneType'' | JBool _ \<Rightarrow> ''bool'' | JInt _ \<Rightarrow> ''int''
                  | JStr _ \<Rightarrow> ''str'' | JList _ \<Rightarrow> ''list'' | JDict _ \<Rightarrow> ''dict'')"

text \<open>\<open>for x in v\<close>: a list gives its elements, a string its characters, a dictionary
  its keys; anything else is not iterable.\<close>

definition py_iter :: "json \<Rightarrow> error + json list" where
  "py_iter v = (case v of
       JList xs \<Rightarrow> Inr xs
     | JStr s \<Rightarrow> Inr (map (\<lambda>c. JStr [c]) s)
     | JDict kvs \<Rightarrow> Inr (map (\<lambda>kv. JStr (fst kv)) kvs)
     | _ \<Rightarrow> Inl (TypeError (quoted (type_name v) @ '' object is not iterable'')))"

text \<open>\<open>v.keys()\<close>: only a dictionary has the method.\<close>

definition py_keys :: "json \<Rightarrow> error + json list" where
  "py_keys v = (case v of
       JDict kvs \<Rightarrow> Inr (map (\<lambda>kv. JStr (fst kv)) kvs)
     | _ \<Rightarrow> Inl (AttributeError (quoted (type_name v) @ '' object has no attribute '' @ quoted ''keys'')))"

text \<open>\<open>v[k]\<close> for a string key \<open>k\<close>.\<close>

definition py_item :: "json \<Rightarrow> string \<Rightarrow> error + json" where
  "py_item v k = (case v of
       JDict kvs \<Rightarrow> (case map_of kvs k of None \<Rightarrow> Inl (KeyError (Some k)) | Some x \<Rightarrow> Inr x)
     | JStr s \<Rightarrow> Inl (TypeError ''string indices must be integers'')
     | JList xs \<Rightarrow> Inl (TypeError ''list indices must be integers or slices, not str'')
     | _ \<Rightarrow> Inl (TypeError (quoted (type_name v) @ '' object is not subscriptable'')))"

text \<open>\<open>v.get(k)\<close> on an aggregation entry that is a dictionary.\<close>

definition py_get :: "json \<Rightarrow> string \<Rightarrow> json" where
  "py_get v k = (case v of JDict kvs \<Rightarrow> cfg_get kvs k | _ \<Rightarrow> JNull)"

text \<open>\<open>col in df.columns\<close>: the labels are strings, so only a string can be one.\<close>

definition in_columns :: "json \<Rightarrow> dataframe \<Rightarrow> bool" where
  "in_columns col df = (case col of JStr s \<Rightarrow> s \<in> set (df_columns df) | _ \<Rightarrow> False)"

definition columns_repr :: "dataframe \<Rightarrow> string" where
  "columns_repr df = py_repr (JList (map JStr (df_columns df)))"

text \<open>\<open>str(e)\<close> of an exception: its message, and for a \<open>KeyError\<close> the \<open>repr\<close> of
  the key.\<close>

definition str_of_error :: "error \<Rightarrow> string" where
  "str_of_error e = (case e of
       KeyError k \<Rightarrow> (case k of None \<Rightarrow> ''None'' | Some s \<Rightarrow> repr_str s)
     | KeyErrorValue v \<Rightarrow> py_repr v
     | ValueError m \<Rightarrow> m
     | AttributeError m \<Rightarrow> m
     | TypeError m \<Rightarrow> m
     | IOError m \<Rightarrow> m
     | ReError m \<Rightarrow> m)"

subsection \<open>Execution log\<close>

datatype log_level = INFO | WARNING | ERROR | DEBUG

record run_log =
  log_node_id :: "string option"
  log_level :: log_level
  log_message :: string
  log_rows_in :: "nat option"
  log_rows_out :: "nat option"

text \<open>\<open>log_node_execution\<close> adds one record to the run's log and commits it; the log
  is the list of records in the order they were added.\<close>

definition log_node_execution ::
  "run_log list \<Rightarrow> string option \<Rightarrow> string \<Rightarrow> log_level \<Rightarrow> nat option \<Rightarrow> nat option \<Rightarrow> run_log list" where
  "log_node_execution db node_id message level rows_in rows_out =
     db @ [\<lparr>log_node_id = node_id, log_level = level, log_message = message,
             log_rows_in = rows_in, log_rows_out = rows_out\<rparr>]"

subsection \<open>External collaborators\<close>

text \<open>
  The tabular I/O provider (\<open>file_utils\<close>, SQLAlchemy, \<open>requests\<close>), the regular
  expression engine and the pandas operations are not part of the engine: the executor
  takes them as an environment. Each call returns its result or the exception it raises.
  \<open>pd_transform\<close> stands for the pandas body of a transform branch that this theory
  does not look into: given the subtype, the configuration, the input and the results
  so far, it returns the new dataset and the log message. \<open>pd_groupby_agg\<close> is
  \<open>df.groupby(group_by).agg(agg_dict).reset_index()\<close>, whose columns are pairs
  (a \<open>MultiIndex\<close>) because every value of \<open>agg_dict\<close> is a list.
\<close>

record mframe =
  mf_columns :: "(string \<times> string) list"
  mf_rows :: "cell list list"

record env =
  load_csv :: "json \<Rightarrow> json \<Rightarrow> json \<Rightarrow> error + dataframe"
  load_excel :: "json \<Rightarrow> json \<Rightarrow> error + dataframe"
  load_json :: "json \<Rightarrow> error + dataframe"
  create_engine :: "json \<Rightarrow> error + unit"
  read_sql :: "json \<Rightarrow> string \<Rightarrow> error + dataframe"
  api_fetch :: "config \<Rightarrow> error + dataframe"
  write_csv :: "dataframe \<Rightarrow> json \<Rightarrow> error + string"
  write_excel :: "dataframe \<Rightarrow> json \<Rightarrow> error + string"
  write_json :: "dataframe \<Rightarrow> json \<Rightarrow> error + string"
  to_sql :: "dataframe \<Rightarrow> config \<Rightarrow> error + unit"
  api_send :: "dataframe \<Rightarrow> config \<Rightarrow> error + unit"
  re_search :: "string \<Rightarrow> string \<Rightarrow> bool"
  pd_compare :: "string \<Rightarrow> cell list \<Rightarrow> json \<Rightarrow> error + bool list"
  pd_str_method :: "string \<Rightarrow> cell list \<Rightarrow> error + cell list"
  pd_groupby_agg :: "json \<Rightarrow> (json \<times> json list) list \<Rightarrow> dataframe \<Rightarrow> error + mframe"
  pd_transform :: "string \<Rightarrow> config \<Rightarrow> dataframe \<Rightarrow> (string \<times> dataframe) list
                    \<Rightarrow> error + (dataframe \<times> string)"

subsection \<open>Columns of a dataset\<close>

definition nth_cell :: "cell list \<Rightarrow> nat \<Rightarrow> cell" where
  "nth_cell row i = (if i < length row then row ! i else CNull)"

text \<open>\<open>df[column]\<close>: the cells of the column, \<open>KeyError\<close> when the label is no column
  (a label that is not a string is none).\<close>

definition get_column :: "dataframe \<Rightarrow> json \<Rightarrow> error + cell list" where
  "get_column df column =
     (case column of
        JStr c \<Rightarrow>
          (case index_of (df_columns df) c of
             None \<Rightarrow> Inl (KeyError (Some c))
           | Some i \<Rightarrow> Inr (map (\<lambda>row. nth_cell row i) (df_rows df)))
      | JNull \<Rightarrow> Inl (KeyError None)
      | _ \<Rightarrow> Inl (KeyError (Some (py_str column))))"

text \<open>\<open>df[c] = cells\<close>: the column is replaced, or added when \<open>c\<close> is a new label.\<close>

definition set_column :: "dataframe \<Rightarrow> string \<Rightarrow> cell list \<Rightarrow> dataframe" where
  "set_column df c cells =
     (case index_of (df_columns df) c of
        Some i \<Rightarrow> df\<lparr>df_rows := map (\<lambda>(row, x). row[i := x]) (zip (df_rows df) cells)\<rparr>
      | None \<Rightarrow> df\<lparr>df_columns := df_columns df @ [c],
                  df_rows := map (\<lambda>(row, x). row @ [x]) (zip (df_rows df) cells)\<rparr>)"

text \<open>\<open>df[mask]\<close>: the rows whose mask entry is true.\<close>

definition mask_rows :: "dataframe \<Rightarrow> bool list \<Rightarrow> dataframe" where
  "mask_rows df keep = df\<lparr>df_rows := map fst (filter snd (zip (df_rows df) keep))\<rparr>"

text \<open>
  pandas: the \<open>.str\<close> accessor exists on a column of strings (an object column, also a
  mixed or an empty one); on a numeric column, \<open>Series.str\<close> raises \<open>AttributeError\<close>.
\<close>

definition is_str :: "cell \<Rightarrow> bool" where
  "is_str c = (case c of CStr _ \<Rightarrow> True | _ \<Rightarrow> False)"

definition str_accessor :: "cell list \<Rightarrow> error + cell list" where
  "str_accessor cells =
     (if list_ex is_str cells \<or> list_all (\<lambda>c. c = CNull) cells then Inr cells
      else Inl (AttributeError ''Can only use .str accessor with string values!''))"

text \<open>pandas: \<open>Series.str.contains(pat, na=False)\<close> searches the pattern in every
  string; a cell that is missing (or no string) gives the value of \<open>na\<close>, here
  \<open>False\<close>.\<close>

definition str_contains :: "env \<Rightarrow> string \<Rightarrow> cell list \<Rightarrow> error + bool list" where
  "str_contains env pat cells =
     (case str_accessor cells of
        Inl err \<Rightarrow> Inl err
      | Inr cs \<Rightarrow> Inr (map (\<lambda>c. case c of CStr s \<Rightarrow> re_search env pat s | _ \<Rightarrow> False) cs))"

subsection \<open>Pre-execution schema validation\<close>

definition missing_columns :: "json list \<Rightarrow> dataframe \<Rightarrow> json list" where
  "missing_columns cols df = filter (\<lambda>col. \<not> in_columns col df) cols"

definition schema_error :: "string \<Rightarrow> string \<Rightarrow> dataframe \<Rightarrow> error" where
  "schema_error node_id what df =
     ValueError (''Node '' @ quoted node_id @ '': '' @ what @ ''. ''
                 @ ''Available columns: '' @ columns_repr df)"

text \<open>The check of one column (\<open>FILTER\<close>, \<open>CAST\<close>) and of a list of columns.\<close>

definition require_column :: "string \<Rightarrow> string \<Rightarrow> json \<Rightarrow> dataframe \<Rightarrow> error + unit" where
  "require_column node_id kind column df =
     (if truthy column \<and> \<not> in_columns column df
      then Inl (schema_error node_id
                  (kind @ '' requires column '' @ quoted (py_str column) @ '' which doesn't exist'') df)
      else Inr ())"

definition require_columns :: "string \<Rightarrow> string \<Rightarrow> json list \<Rightarrow> dataframe \<Rightarrow> error + unit" where
  "require_columns node_id what cols df =
     (let missing = missing_columns cols df in
      if missing \<noteq> []
      then Inl (schema_error node_id
                  (what @ '' '' @ py_repr (JList missing) @ '' which don't exist'') df)
      else Inr ())"

definition validate_transform_schema :: "node \<Rightarrow> dataframe \<Rightarrow> error + unit" where
  "validate_transform_schema node df =
     (case n_subtype node of None \<Rightarrow> Inl (KeyError (Some ''subtype'')) | Some subtype \<Rightarrow>
      case n_config node of None \<Rightarrow> Inl (KeyError (Some ''config'')) | Some config \<Rightarrow>
      let node_id = n_id node in
      if subtype = ''FILTER'' then
        require_column node_id ''FILTER'' (cfg_get config ''column'') df
      else if subtype = ''SELECT'' then
        (case py_iter (cfg_get_default config ''columns'' (JList [])) of
           Inl err \<Rightarrow> Inl err
         | Inr columns \<Rightarrow> require_columns node_id ''SELECT requires columns'' columns df)
      else if subtype = ''RENAME'' then
        (case py_keys (cfg_get_default config ''mapping'' (JDict [])) of
           Inl err \<Rightarrow> Inl err
         | Inr keys \<Rightarrow> require_columns node_id ''RENAME references columns'' keys df)
      else if subtype = ''CAST'' then
        require_column node_id ''CAST'' (cfg_get config ''column'') df
      else if subtype = ''AGGREGATE'' then
        (let group_by = cfg_get_default config ''group_by'' (JList []);
             group_by = (case group_by of JStr s \<Rightarrow> JList [JStr s] | _ \<Rightarrow> group_by)
         in case py_iter group_by of
              Inl err \<Rightarrow> Inl err
            | Inr cols \<Rightarrow>
                (case require_columns node_id ''AGGREGATE references group_by columns'' cols df of
                   Inl err \<Rightarrow> Inl err
                 | Inr _ \<Rightarrow>
                     (case py_keys (cfg_get_default config ''aggregations'' (JDict [])) of
                        Inl err \<Rightarrow> Inl err
                      | Inr agg_cols \<Rightarrow>
                          require_columns node_id ''AGGREGATE references aggregation columns''
                            agg_cols df)))
      else if subtype = ''SORT'' then
        (let columns = cfg_get_default config ''columns'' (JList []);
             columns = (case columns of JStr s \<Rightarrow> JList [JStr s] | _ \<Rightarrow> columns)
         in case py_iter columns of
              Inl err \<Rightarrow> Inl err
            | Inr cols \<Rightarrow> require_columns node_id ''SORT requires columns'' cols df)
      else Inr ())"

subsection \<open>Transform operators\<close>

text \<open>\<open>FILTER\<close>: the six comparisons are pandas comparisons of the column with the
  value; \<open>contains\<close> is \<open>df[column].str.contains(str(value), na=False)\<close>.\<close>

definition compare_column :: "env \<Rightarrow> string \<Rightarrow> dataframe \<Rightarrow> json \<Rightarrow> json \<Rightarrow> error + bool list" where
  "compare_column env operator df column v =
     (case get_column df column of
        Inl err \<Rightarrow> Inl err
      | Inr cells \<Rightarrow> pd_compare env operator cells v)"

definition filter_keep :: "env \<Rightarrow> config \<Rightarrow> dataframe \<Rightarrow> error + bool list" where
  "filter_keep env config df =
     (let column = cfg_get config ''column'';
          operator = cfg_get config ''operator'';
          v = cfg_get config ''value''
      in if operator = JStr ''=='' then compare_column env ''=='' df column v
         else if operator = JStr ''!='' then compare_column env ''!='' df column v
         else if operator = JStr ''>'' then compare_column env ''>'' df column v
         else if operator = JStr ''<'' then compare_column env ''<'' df column v
         else if operator = JStr ''>='' then compare_column env ''>='' df column v
         else if operator = JStr ''<='' then compare_column env ''<='' df column v
         else if operator = JStr ''contains'' then
           (case get_column df column of
              Inl err \<Rightarrow> Inl err
            | Inr cells \<Rightarrow> str_contains env (py_str v) cells)
         else Inl (ValueError (''Unknown operator: '' @ py_str operator)))"

definition filter_transform :: "env \<Rightarrow> config \<Rightarrow> dataframe \<Rightarrow> error + (dataframe \<times> string)" where
  "filter_transform env config df =
     (case filter_keep env config df of
        Inl err \<Rightarrow> Inl err
      | Inr keep \<Rightarrow>
          Inr (mask_rows df keep,
               ''Filtered by '' @ py_str (cfg_get config ''column'') @ '' ''
                 @ py_str (cfg_get config ''operator'') @ '' '' @ py_str (cfg_get config ''value'')))"

text \<open>\<open>AGGREGATE\<close>: the loop over the aggregations builds \<open>agg_dict\<close> and
  \<open>rename_map\<close>.\<close>

type_synonym agg_dict = "(json \<times> json list) list"
type_synonym rename_map = "((json \<times> json) \<times> json) list"

definition output_name :: "json \<Rightarrow> json \<Rightarrow> json \<Rightarrow> json" where
  "output_name agg col agg_func =
     (if truthy (py_get agg ''as'') then py_get agg ''as''
      else if truthy (py_get agg ''output_column'') then py_get agg ''output_column''
      else JStr (py_str col @ ''_'' @ py_str agg_func))"

definition agg_append :: "agg_dict \<Rightarrow> json \<Rightarrow> json \<Rightarrow> agg_dict" where
  "agg_append agg_dict col agg_func =
     AList.update col ((case map_of agg_dict col of None \<Rightarrow> [] | Some fs \<Rightarrow> fs) @ [agg_func]) agg_dict"

fun agg_entries ::
  "dataframe \<Rightarrow> json list \<Rightarrow> agg_dict \<Rightarrow> rename_map \<Rightarrow> error + (agg_dict \<times> rename_map)" where
  "agg_entries df [] agg_dict rename_map = Inr (agg_dict, rename_map)"
| "agg_entries df (agg # rest) agg_dict rename_map =
     (case py_item agg ''column'' of
        Inl err \<Rightarrow> Inl err
      | Inr col \<Rightarrow>
          (case py_item agg ''agg'' of
             Inl err \<Rightarrow> Inl err
           | Inr agg_func \<Rightarrow>
               if \<not> in_columns col df
               then Inl (ValueError (''Column '' @ quoted (py_str col) @ '' not found in dataframe''))
               else agg_entries df rest (agg_append agg_dict col agg_func)
                      (AList.update (col, agg_func) (output_name agg col agg_func) rename_map)))"

text \<open>The first flattening names a \<open>MultiIndex\<close> column after \<open>rename_map\<close>; the
  second one, \<open>'_'.join(col).strip('_')\<close>, is then applied to every name, which is a
  string by now: its characters are joined with underscores.\<close>

definition rename_column :: "rename_map \<Rightarrow> string \<times> string \<Rightarrow> json" where
  "rename_column rename_map col_tuple =
     (if snd col_tuple \<noteq> [] then
        (case map_of rename_map (JStr (fst col_tuple), JStr (snd col_tuple)) of
           Some new_name \<Rightarrow> new_name
         | None \<Rightarrow> JStr (fst col_tuple @ ''_'' @ snd col_tuple))
      else JStr (fst col_tuple))"

definition strip_underscores :: "string \<Rightarrow> string" where
  "strip_underscores s =
     rev (dropWhile (\<lambda>c. c = CHR ''_'') (rev (dropWhile (\<lambda>c. c = CHR ''_'') s)))"

definition flatten_name :: "json \<Rightarrow> error + string" where
  "flatten_name col =
     (case col of
        JStr s \<Rightarrow> Inr (strip_underscores (join ''_'' (map (\<lambda>c. [c]) s)))
      | _ \<Rightarrow> Inl (TypeError ''can only join an iterable''))"

fun flatten_names :: "json list \<Rightarrow> error + string list" where
  "flatten_names [] = Inr []"
| "flatten_names (col # cols) =
     (case flatten_name col of
        Inl err \<Rightarrow> Inl err
      | Inr name \<Rightarrow>
          (case flatten_names cols of Inl err \<Rightarrow> Inl err | Inr names \<Rightarrow> Inr (name # names)))"

definition aggregate_transform :: "env \<Rightarrow> config \<Rightarrow> dataframe \<Rightarrow> error + (dataframe \<times> string)" where
  "aggregate_transform env config df =
     (let group_by = cfg_get_default config ''group_by'' (JList []);
          aggregations = cfg_get_default config ''aggregations'' (JList [])
      in if \<not> truthy group_by
         then Inl (ValueError ''AGGREGATE requires at least one 'group_by' column'')
         else if \<not> truthy aggregations
         then Inl (ValueError ''AGGREGATE requires at least one aggregation'')
         else
           (case py_iter aggregations of
              Inl err \<Rightarrow> Inl err
            | Inr aggs \<Rightarrow>
                (case agg_entries df aggs [] [] of
                   Inl err \<Rightarrow> Inl err
                 | Inr (agg_dict, rename_map) \<Rightarrow>
                     (case pd_groupby_agg env group_by agg_dict df of
                        Inl err \<Rightarrow> Inl err
                      | Inr grouped \<Rightarrow>
                          (case flatten_names (map (rename_column rename_map) (mf_columns grouped)) of
                             Inl err \<Rightarrow> Inl err
                           | Inr names \<Rightarrow>
                               Inr (\<lparr>df_columns = names, df_rows = mf_rows grouped\<rparr>,
                                    ''Aggregated by '' @ py_str group_by))))))"

text \<open>\<open>STRING_TRANSFORM\<close>: \<open>df[column] = df[column].str.<method>\<close> for the operations
  the chain knows (\<open>pd_str_method\<close> is handed a tag that names the pandas call); the
  chain has no final \<open>else\<close>.\<close>

definition str_assign :: "env \<Rightarrow> string \<Rightarrow> json \<Rightarrow> dataframe \<Rightarrow> error + dataframe" where
  "str_assign env method column df =
     (case get_column df column of
        Inl err \<Rightarrow> Inl err
      | Inr cells \<Rightarrow>
          (case str_accessor cells of
             Inl err \<Rightarrow> Inl err
           | Inr cs \<Rightarrow>
               (case pd_str_method env method cs of
                  Inl err \<Rightarrow> Inl err
                | Inr cs' \<Rightarrow> Inr (set_column df (py_str column) cs'))))"

definition email_pattern :: string where
  "email_pattern = ''^[a-zA-Z0-9._%+-]+@[a-zA-Z0-9.-]+'' @ [CHR 0x5C] @ ''.[a-zA-Z]{2,}$''"

definition cell_str :: "cell \<Rightarrow> string" where
  "cell_str c = (case c of CNull \<Rightarrow> ''None'' | CInt i \<Rightarrow> show_int i | CStr s \<Rightarrow> s)"

definition validate_email :: "env \<Rightarrow> json \<Rightarrow> dataframe \<Rightarrow> error + dataframe" where
  "validate_email env column df =
     (case get_column df column of
        Inl err \<Rightarrow> Inl err
      | Inr cells \<Rightarrow>
          Inr (set_column df (py_str column)
                 (map (\<lambda>x. if x \<noteq> CNull \<and> re_search env email_pattern (cell_str x) then x else CNull)
                    cells)))"

definition string_transform :: "env \<Rightarrow> config \<Rightarrow> dataframe \<Rightarrow> error + (dataframe \<times> string)" where
  "string_transform env config df =
     (let column = cfg_get config ''column'';
          operation = cfg_get config ''operation''
      in case
           (if operation = JStr ''trim'' then str_assign env ''strip'' column df
            else if operation = JStr ''lowercase'' then str_assign env ''lower'' column df
            else if operation = JStr ''uppercase'' then str_assign env ''upper'' column df
            else if operation = JStr ''title'' then str_assign env ''title'' column df
            else if operation = JStr ''remove_spaces'' then str_assign env ''replace spaces'' column df
            else if operation = JStr ''clean_phone'' then str_assign env ''replace non-digits'' column df
            else if operation = JStr ''parse_currency'' then
              str_assign env ''replace currency symbols, astype float'' column df
            else if operation = JStr ''validate_email'' then validate_email env column df
            else Inr df)
         of Inl err \<Rightarrow> Inl err
          | Inr df' \<Rightarrow> Inr (df', ''Applied '' @ py_str operation @ '' to '' @ py_str column))"

text \<open>The \<open>if\<close>/\<open>elif\<close> chain over the subtype. The branches that are not spelled out
  above are the pandas calls of \<open>pd_transform\<close>.\<close>

definition transform_body ::
  "env \<Rightarrow> string \<Rightarrow> config \<Rightarrow> dataframe \<Rightarrow> (string \<times> dataframe) list
     \<Rightarrow> error + (dataframe \<times> string)" where
  "transform_body env subtype config df results_context =
     (if subtype = ''SELECT'' then pd_transform env subtype config df results_context
      else if subtype = ''FILTER'' then filter_transform env config df
      else if subtype = ''RENAME'' then pd_transform env subtype config df results_context
      else if subtype = ''CAST'' then pd_transform env subtype config df results_context
      else if subtype = ''AGGREGATE'' then aggregate_transform env config df
      else if subtype = ''JOIN'' then pd_transform env subtype config df results_context
      else if subtype = ''SORT'' then pd_transform env subtype config df results_context
      else if subtype = ''FILL_MISSING'' then pd_transform env subtype config df results_context
      else if subtype = ''DROP_DUPLICATES'' then pd_transform env subtype config df results_context
      else if subtype = ''NORMALIZE'' then pd_transform env subtype config df results_context
      else if subtype = ''STRING_TRANSFORM'' then string_transform env config df
      else if subtype = ''FILTER_OUTLIERS'' then pd_transform env subtype config df results_context
      else if subtype = ''SPLIT_COLUMN'' then pd_transform env subtype config df results_context
      else if subtype = ''MERGE_COLUMNS'' then pd_transform env subtype config df results_context
      else if subtype = ''EXTRACT_DATE_PARTS'' then pd_transform env subtype config df results_context
      else if subtype = ''BINNING'' then pd_transform env subtype config df results_context
      else Inl (ValueError (''Unknown transform subtype: '' @ subtype)))"

text \<open>
  \<open>execute_transform_node\<close>: the schema validation runs before the \<open>try\<close> block, so
  its exception is not logged here; an exception of the operator is logged as \<open>ERROR\<close>
  with \<open>rows_in\<close> and raised again.
\<close>

definition execute_transform_node ::
  "env \<Rightarrow> node \<Rightarrow> dataframe \<Rightarrow> run_log list \<Rightarrow> (string \<times> dataframe) list
     \<Rightarrow> (error + dataframe) \<times> run_log list" where
  "execute_transform_node env node input_df db results_context =
     (case n_subtype node of None \<Rightarrow> (Inl (KeyError (Some ''subtype'')), db) | Some subtype \<Rightarrow>
      case n_config node of None \<Rightarrow> (Inl (KeyError (Some ''config'')), db) | Some config \<Rightarrow>
      let rows_in = len_df input_df in
      case validate_transform_schema node input_df of
        Inl err \<Rightarrow> (Inl err, db)
      | Inr _ \<Rightarrow>
          (case transform_body env subtype config input_df results_context of
             Inr (df, message) \<Rightarrow>
               (Inr df, log_node_execution db (Some (n_id node)) message INFO
                          (Some rows_in) (Some (len_df df)))
           | Inl err \<Rightarrow>
               (Inl err, log_node_execution db (Some (n_id node))
                           (''Transform failed: '' @ str_of_error err) ERROR (Some rows_in) None)))"

subsection \<open>Source and sink operators\<close>






subsection \<open>The execution loop\<close>




definition incoming :: "edge list \<Rightarrow> string \<Rightarrow> edge list" where
  "incoming edges node_id = filter (\<lambda>e. edge_to e = Some node_id) edges"





section \<open>Properties of the transform operators\<close>

text \<open>The input of the aggregation example: rows \<open>{g: a, x: 1}\<close>, \<open>{g: a, x: 2}\<close>,
  \<open>{g: b, x: 5}\<close>.\<close>

definition agg_input :: dataframe where
  "agg_input = \<lparr>df_columns = [''g'', ''x''],
                 df_rows = [[CStr ''a'', CInt 1], [CStr ''a'', CInt 2], [CStr ''b'', CInt 5]]\<rparr>"

definition agg_node :: node where
  "agg_node = mk_node ''agg'' ''TRANSFORM'' ''AGGREGATE''
     [(''group_by'', JList [JStr ''g'']),
      (''aggregations'',
         JList [JDict [(''column'', JStr ''x''), (''agg'', JStr ''sum''), (''as'', JStr ''x_sum'')]])]"

definition names_input :: dataframe where
  "names_input = \<lparr>df_columns = [''name''], df_rows = [[CStr ''Ann''], [CStr ''Bob'']]\<rparr>"

definition reverse_node :: node where
  "reverse_node = mk_node ''st'' ''TRANSFORM'' ''STRING_TRANSFORM''
     [(''column'', JStr ''name''), (''operation'', JStr ''reverse'')]"

text \<open>
  C6. The specification says that the aggregation with \<open>group_by = ["g"]\<close> and the
  aggregation \<open>{column: "x", agg: "sum", as: "x_sum"}\<close> over \<open>agg_input\<close> yields the rows
  \<open>{g: a, x_sum: 3}\<close> and \<open>{g: b, x_sum: 5}\<close> with the columns \<open>g\<close> and \<open>x_sum\<close>. The
  executor raises instead: \<open>validate_transform_schema\<close> calls \<open>.keys()\<close> on the
  aggregations, which the operator itself reads as a list. And the second flattening of
  the column names would turn \<open>x_sum\<close> into \<open>x___s_u_m\<close>.
\<close>

theorem aggregate_example_raises:
  "execute_transform_node env agg_node agg_input db results_context
     = (Inl (AttributeError (quoted ''list'' @ '' object has no attribute '' @ quoted ''keys'')), db)
   \<and> flatten_names [JStr ''g'', JStr ''x_sum''] = Inr [''g'', ''x___s_u_m'']"
  by (simp add: execute_transform_node_def agg_node_def agg_input_def mk_node_def
      validate_transform_schema_def cfg_get_default_def py_iter_def require_columns_def
      missing_columns_def in_columns_def py_keys_def type_name_def flatten_name_def
      strip_underscores_def)

text \<open>
  C9. The specification says that a \<open>STRING_TRANSFORM\<close> whose operation is not supported
  raises a configuration error. The chain over the operations has no final \<open>else\<close>
  (unlike the chains of \<open>FILTER\<close> and \<open>CAST\<close>): the node completes, returns its input
  unchanged and logs \<open>Applied reverse to name\<close> at level \<open>INFO\<close>.
\<close>

theorem unsupported_string_operation_succeeds:
  "execute_transform_node env reverse_node names_input db results_context
     = (Inr names_input,
        db @ [\<lparr>log_node_id = Some ''st'', log_level = INFO,
                log_message = ''Applied reverse to name'',
                log_rows_in = Some 2, log_rows_out = Some 2\<rparr>])"
  by (simp add: execute_transform_node_def reverse_node_def names_input_def mk_node_def
      validate_transform_schema_def transform_body_def string_transform_def cfg_get_def
      py_str_def log_node_execution_def len_df_def)

section \<open>A concrete environment\<close>












section \<open>Properties of the execution loop\<close>

















end
